(* ===== verification/Prelude.thy ===== *)
theory Prelude
  imports Main "HOL-Library.Word"
begin

text \<open>
  The vocabulary of the development: Go's fixed-width integers as words, its slices and
  strings as lists of bytes, the word arithmetic the wire formats need, and the interfaces
  (locales) that several components share.

  A Go string is a sequence of bytes with no encoding attached, so it is a \<^typ>\<open>8 word\<close>
  list like a slice; \<open>gostr\<close> turns a literal of the source into one. Lengths of slices are
  natural numbers: Go's \<open>len\<close> is a non-negative \<open>int\<close>, so its conversion to \<open>uint64\<close>
  is exact and comparing it with a 64-bit word is comparing natural numbers.
\<close>

unbundle bit_operations_syntax

section \<open>Types and literals\<close>

type_synonym byte = "8 word"
type_synonym bytes = "byte list"
type_synonym gostring = "byte list"
type_synonym u32 = "32 word"
type_synonym u64 = "64 word"

definition gostr :: "string \<Rightarrow> gostring" where
  "gostr s = map of_char s"

text \<open>The proof collections of the development: \<open>width_simps\<close> moves word operations to
  \<open>nat\<close>, \<open>go_simps\<close> collects what the operations of a component compute, and
  \<open>frame_simps\<close> the fields an operation leaves alone.\<close>

named_theorems width_simps
named_theorems go_simps
named_theorems keep_simps

section \<open>Words as natural numbers\<close>

lemma or_high_bits:
  assumes "k + m = LENGTH('a::len)"
  shows "(x :: 'a word) OR push_bit k (mask m) = take_bit k x + push_bit k (mask m)"
proof -
  have "x OR push_bit k (mask m) = take_bit k x OR push_bit k (mask m)"
    using assms by (intro bit_word_eqI) (auto simp: bit_simps)
  also have "\<dots> = take_bit k x + push_bit k (mask m)"
    by (rule disjunctive_add [symmetric]) (auto simp: bit_simps)
  finally show ?thesis .
qed

lemma unat_take_bit_mod [width_simps]: "unat (take_bit k x) = unat x mod 2 ^ k"
  by (simp add: unsigned_take_bit_eq flip: take_bit_eq_mod)

lemma unat_or_128 [width_simps]: "unat ((x :: byte) OR 128) = unat x mod 128 + 128"
proof -
  have "x OR 128 = take_bit 7 x + 128"
    using or_high_bits [of 7 1 x] by (simp add: mask_eq_exp_minus_1)
  then show ?thesis
    using unat_take_bit_mod [of 7 x] by (simp add: unat_word_ariths)
qed

lemma unat_or_240 [width_simps]: "unat ((x :: byte) OR 240) = unat x mod 16 + 240"
proof -
  have "x OR 240 = take_bit 4 x + 240"
    using or_high_bits [of 4 4 x] by (simp add: mask_eq_exp_minus_1)
  then show ?thesis
    using unat_take_bit_mod [of 4 x] by (simp add: unat_word_ariths)
qed

lemma unat_ucast_byte [width_simps]: "unat (ucast (n :: u64) :: byte) = unat n mod 256"
  by (simp add: unsigned_ucast_eq take_bit_eq_mod)

lemma unat_byte_less [simp]: "unat (b :: byte) < 256"
  using unsigned_less [of b] by simp

lemma unat_u64_less [simp]: "unat (n :: u64) < 18446744073709551616"
  using unsigned_less [of n] by simp

lemma unat_ucast_u64 [width_simps]: "unat (ucast (b :: byte) :: u64) = unat b"
proof -
  have "unat b < 2 ^ 64" by (rule less_trans [OF unat_byte_less]) simp
  then show ?thesis by (simp add: unsigned_ucast_eq take_bit_eq_mod)
qed

lemma unat_div_numeral [width_simps]: "unat ((x :: u64) div numeral k) = unat x div unat (numeral k :: u64)"
  by (rule unat_div_distrib)

lemma unat_pred: "0 < unat w \<Longrightarrow> unat (w - 1) = unat w - 1"
  by (rule unat_minus_one) auto

lemma byte_eqI: "unat (a :: byte) = unat b \<Longrightarrow> a = b"
  by (rule unsigned_word_eqI)

lemma unat_word_of_nat_byte [simp]: "n < 256 \<Longrightarrow> unat (word_of_nat n :: byte) = n"
  by (simp add: unat_of_nat)

lemma byte_of_nat_eqI: "n < 256 \<Longrightarrow> unat (a :: byte) = n \<Longrightarrow> a = word_of_nat n"
  by (rule byte_eqI) simp

section \<open>Splitting a number into a digit and the rest\<close>

lemma digit_split:
  assumes "d * c \<le> (n :: nat)"
  shows "n mod d + d * c + d * ((n - d * c) div d) = n"
proof -
  obtain k where "n = k + d * c" using assms le_Suc_ex by (metis add.commute)
  then show ?thesis by (simp add: mod_mult_div_eq algebra_simps)
qed

lemma digit_join:
  assumes "d * c \<le> (b :: nat)" and "b < d * c + d"
  shows "(b + d * w - d * c) div d = w" and "(b + d * w) mod d + d * c = b"
proof -
  obtain r where r: "b = r + d * c" using assms(1) le_Suc_ex by (metis add.commute)
  with assms(2) have "r < d" by simp
  with r show "(b + d * w - d * c) div d = w" and "(b + d * w) mod d + d * c = b"
    by simp_all
qed

section \<open>Lists\<close>

lemma take_append_length [simp]: "take (length xs) (xs @ ys) = xs"
  by simp

lemma drop_append_length [simp]: "drop (length xs) (xs @ ys) = ys"
  by simp

lemma take_drop_nat:
  "k \<le> length xs \<Longrightarrow> take k xs @ drop k xs = xs"
  by simp

section \<open>Results that may panic\<close>

datatype 'a outcome = Ret 'a | Panic

section \<open>Interfaces: reading items off a buffer\<close>

text \<open>
  Every decoder of the protocol takes a buffer and either fails or returns an item and the
  number of bytes it took. \<open>item_reader\<close> is what its callers rely on: a successful read takes
  at least one byte and no more than there are, and depends on nothing behind the bytes it
  took. \<open>item_codec\<close> adds the encoder: reading an encoded item gives it back, up to the
  normal form \<open>norm\<close> the wire format imposes. \<open>list_reader\<close> is the loop that reads items
  until the buffer is exhausted and keeps what it has read when an item fails.
\<close>

inductive parses :: "(bytes \<Rightarrow> 'e + 'a \<times> nat) \<Rightarrow> bytes \<Rightarrow> 'a list \<Rightarrow> bool"
  for dec :: "bytes \<Rightarrow> 'e + 'a \<times> nat" where
  parses_Nil: "parses dec [] []"
| parses_Cons: "b \<noteq> [] \<Longrightarrow> dec b = Inr (x, n) \<Longrightarrow> parses dec (drop n b) xs \<Longrightarrow>
     parses dec b (x # xs)"

inductive_cases parses_emptyE [elim!]: "parses dec [] xs"

locale item_reader =
  fixes dec :: "bytes \<Rightarrow> 'e + 'a \<times> nat"
  assumes dec_progress: "dec b = Inr (x, n) \<Longrightarrow> 0 < n \<and> n \<le> length b"
    and dec_local: "dec b = Inr (x, n) \<Longrightarrow> dec (take n b @ rest) = Inr (x, n)"
begin

lemma dec_extend: "dec b = Inr (x, n) \<Longrightarrow> dec (b @ rest) = Inr (x, n)"
  using dec_local [of b x n "drop n b @ rest"] dec_progress [of b x n]
  by (simp flip: append_assoc)

lemma dec_shrinks: "dec b = Inr (x, n) \<Longrightarrow> length (drop n b) < length b"
  using dec_progress [of b x n] by auto

lemma parses_unique: "parses dec b xs \<Longrightarrow> parses dec b ys \<Longrightarrow> xs = ys"
proof (induction b xs arbitrary: ys rule: parses.induct)
  case (parses_Cons b x n xs)
  from parses_Cons.prems parses_Cons.hyps show ?case
    by (cases rule: parses.cases) (auto intro: parses_Cons.IH)
qed blast

lemma parses_append: "parses dec b xs \<Longrightarrow> parses dec c ys \<Longrightarrow> parses dec (b @ c) (xs @ ys)"
proof (induction b xs rule: parses.induct)
  case (parses_Cons b x n xs)
  have "dec (b @ c) = Inr (x, n)" using parses_Cons.hyps(2) by (rule dec_extend)
  moreover have "drop n (b @ c) = drop n b @ c"
    using dec_progress [OF parses_Cons.hyps(2)] by simp
  ultimately show ?case
    using parses_Cons parses.parses_Cons [of "b @ c" dec x n "xs @ ys"] by simp
qed simp

end

text \<open>Readers compose: \<open>seq_read d1 d2\<close> reads with \<open>d1\<close> and hands what is left to \<open>d2\<close>,
  which may depend on the first item; \<open>map_read\<close> renames errors and items. Both keep reading
  local, which \<open>reads_local\<close> states for a reader that may also take nothing.\<close>

definition seq_read :: "(bytes \<Rightarrow> 'e + 'a \<times> nat) \<Rightarrow> ('a \<Rightarrow> bytes \<Rightarrow> 'e + 'b \<times> nat) \<Rightarrow> bytes \<Rightarrow> 'e + 'b \<times> nat" where
  "seq_read d1 d2 b =
     (case d1 b of Inl e \<Rightarrow> Inl e
      | Inr (x, n) \<Rightarrow>
          (case d2 x (drop n b) of Inl e \<Rightarrow> Inl e | Inr (y, k) \<Rightarrow> Inr (y, n + k)))"

definition map_read :: "('e \<Rightarrow> 'f) \<Rightarrow> ('a \<Rightarrow> 'b) \<Rightarrow> (bytes \<Rightarrow> 'e + 'a \<times> nat) \<Rightarrow> bytes \<Rightarrow> 'f + 'b \<times> nat" where
  "map_read f g d b = map_sum f (map_prod g id) (d b)"

definition reads_local :: "(bytes \<Rightarrow> 'e + 'a \<times> nat) \<Rightarrow> bool" where
  "reads_local d \<longleftrightarrow>
     (\<forall>b x n rest. d b = Inr (x, n) \<longrightarrow> n \<le> length b \<and> d (take n b @ rest) = Inr (x, n))"

lemma reads_localD:
  "reads_local d \<Longrightarrow> d b = Inr (x, n) \<Longrightarrow> n \<le> length b \<and> d (take n b @ rest) = Inr (x, n)"
  by (simp add: reads_local_def)

lemma reads_local_map: "reads_local d \<Longrightarrow> reads_local (map_read f g d)"
proof (unfold reads_local_def, intro allI impI)
  fix b y n rest
  assume loc: "\<forall>b x n rest. d b = Inr (x, n) \<longrightarrow> n \<le> length b \<and> d (take n b @ rest) = Inr (x, n)"
    and "map_read f g d b = Inr (y, n)"
  then obtain x where "d b = Inr (x, n)" and "y = g x"
    by (cases "d b") (auto simp: map_read_def)
  with loc show "n \<le> length b \<and> map_read f g d (take n b @ rest) = Inr (y, n)"
    by (simp add: map_read_def)
qed

lemma reads_local_seq:
  assumes "reads_local d1" and "\<And>x. reads_local (d2 x)"
  shows "reads_local (seq_read d1 d2)"
proof (unfold reads_local_def, intro allI impI)
  fix b y n rest
  assume "seq_read d1 d2 b = Inr (y, n)"
  then obtain x n1 n2 where 1: "d1 b = Inr (x, n1)" and 2: "d2 x (drop n1 b) = Inr (y, n2)"
    and n: "n = n1 + n2"
    by (auto simp: seq_read_def split: sum.splits)
  note fst = reads_localD [OF assms(1) 1] and snd = reads_localD [OF assms(2) 2]
  have "n \<le> length b" using fst [of rest] snd [of rest] n by auto
  moreover have "take n b @ rest = take n1 b @ (take n2 (drop n1 b) @ rest)"
    using n by (simp add: take_add)
  ultimately show "n \<le> length b \<and> seq_read d1 d2 (take n b @ rest) = Inr (y, n)"
    using fst snd n by (simp add: seq_read_def)
qed

lemma seq_read_fst: "seq_read d1 d2 b = Inr (y, n) \<Longrightarrow> \<exists>x k. d1 b = Inr (x, k) \<and> k \<le> n"
  by (auto simp: seq_read_def split: sum.splits)

context item_reader
begin

lemma reads_local: "reads_local dec"
  using dec_progress dec_local by (auto simp: reads_local_def)

end

locale item_codec = item_reader dec for dec :: "bytes \<Rightarrow> 'e + 'a \<times> nat" +
  fixes enc :: "'a \<Rightarrow> bytes" and valid :: "'a \<Rightarrow> bool" and norm :: "'a \<Rightarrow> 'a"
  assumes dec_enc: "valid x \<Longrightarrow> dec (enc x @ rest) = Inr (norm x, length (enc x))"
begin

lemma enc_nonempty: "valid x \<Longrightarrow> enc x \<noteq> []"
  using dec_enc [of x "[]"] dec_progress by fastforce

lemma parses_enc: "valid x \<Longrightarrow> parses dec (enc x) [norm x]"
  using parses_Cons [of "enc x" dec "norm x" "length (enc x)" "[]"] dec_enc [of x "[]"]
    enc_nonempty [of x] parses_Nil [of dec]
  by simp

lemma parses_concat: "\<forall>x \<in> set xs. valid x \<Longrightarrow> parses dec (concat (map enc xs)) (map norm xs)"
proof (induction xs)
  case (Cons x xs)
  then show ?case
    using parses_append [OF parses_enc [of x]] by simp
qed (simp add: parses_Nil)

lemma enc_prefix_free:
  assumes "valid x" and "valid y" and "enc x @ r = enc y @ s"
  shows "norm x = norm y" and "r = s"
  using dec_enc [OF assms(1), of r] dec_enc [OF assms(2), of s] assms(3)
  by (simp_all add: append_eq_append_conv)

end

locale list_reader = item_reader dec for dec :: "bytes \<Rightarrow> 'e + 'a \<times> nat" +
  fixes loop :: "'a list \<Rightarrow> bytes \<Rightarrow> 'a list \<times> 'e option"
  assumes loop_Nil: "loop acc [] = (acc, None)"
    and loop_fail: "b \<noteq> [] \<Longrightarrow> dec b = Inl e \<Longrightarrow> loop acc b = (acc, Some e)"
    and loop_item: "b \<noteq> [] \<Longrightarrow> dec b = Inr (x, n) \<Longrightarrow> loop acc b = loop (acc @ [x]) (drop n b)"
begin

lemma loop_induct [case_names Nil Fail Item]:
  assumes "\<And>acc. P acc []"
    and "\<And>acc b e. b \<noteq> [] \<Longrightarrow> dec b = Inl e \<Longrightarrow> P acc b"
    and "\<And>acc b x n. b \<noteq> [] \<Longrightarrow> dec b = Inr (x, n) \<Longrightarrow> P (acc @ [x]) (drop n b) \<Longrightarrow> P acc b"
  shows "P acc b"
proof (induction "length b" arbitrary: acc b rule: less_induct)
  case less
  consider "b = []" | e where "b \<noteq> []" "dec b = Inl e"
    | x n where "b \<noteq> []" "dec b = Inr (x, n)"
    by (cases "dec b") auto
  then show ?case
  proof cases
    case 1
    with assms(1) show ?thesis by simp
  next
    case 2
    then show ?thesis by (rule assms(2))
  next
    case 3
    then show ?thesis by (rule assms(3)) (rule less [OF dec_shrinks [OF 3(2)]])
  qed
qed

lemma loop_extends: "\<exists>xs. fst (loop acc b) = acc @ xs"
  by (induction acc b rule: loop_induct) (auto simp: loop_Nil loop_fail loop_item)

lemma loop_parses: "parses dec b xs \<Longrightarrow> loop acc b = (acc @ xs, None)"
  by (induction b xs arbitrary: acc rule: parses.induct) (auto simp: loop_Nil loop_item)

lemma loop_ok_parses: "snd (loop acc b) = None \<Longrightarrow> \<exists>xs. parses dec b xs \<and> loop acc b = (acc @ xs, None)"
proof (induction acc b rule: loop_induct)
  case (Item acc b x n)
  then obtain xs where "parses dec (drop n b) xs" and "loop (acc @ [x]) (drop n b) = (acc @ [x] @ xs, None)"
    by (auto simp: loop_item)
  with Item.hyps show ?case by (auto simp: loop_item intro: parses_Cons)
qed (auto simp: loop_Nil loop_fail parses_Nil)

lemma loop_prefix: "parses dec good xs \<Longrightarrow> loop acc (good @ rest) = loop (acc @ xs) rest"
proof (induction good xs arbitrary: acc rule: parses.induct)
  case (parses_Cons b x n xs)
  have "dec (b @ rest) = Inr (x, n)" using parses_Cons.hyps(2) by (rule dec_extend)
  moreover have "drop n (b @ rest) = drop n b @ rest"
    using dec_progress [OF parses_Cons.hyps(2)] by simp
  ultimately show ?case using parses_Cons by (simp add: loop_item)
qed simp

text \<open>The loop fails exactly where a sequence of items is followed by bytes that are not one, with
  that error, and keeps the items before them.\<close>

lemma loop_stops:
  "loop acc b = (ys, Some e) \<Longrightarrow>
   \<exists>good rest xs. b = good @ rest \<and> parses dec good xs \<and> rest \<noteq> [] \<and> dec rest = Inl e \<and> ys = acc @ xs"
proof (induction acc b rule: loop_induct)
  case (Fail acc b e')
  then show ?case
    using parses_Nil [of dec] by (intro exI [of _ "[]"] exI [of _ b]) (simp add: loop_fail)
next
  case (Item acc b x n)
  then obtain good rest xs where *: "drop n b = good @ rest" "parses dec good xs" "rest \<noteq> []" "dec rest = Inl e"
    "ys = acc @ x # xs" by (auto simp: loop_item)
  have n: "0 < n" "n \<le> length b" using dec_progress [OF Item.hyps(2)] by simp_all
  have "dec (take n b @ good) = Inr (x, n)" using Item.hyps(2) by (rule dec_local)
  moreover have "take n b @ good \<noteq> []" "drop n (take n b @ good) = good" using n Item.hyps(1) by auto
  ultimately have "parses dec (take n b @ good) (x # xs)" using *(2) by (metis parses_Cons)
  moreover have "b = (take n b @ good) @ rest" using *(1) by (metis append_assoc append_take_drop_id)
  ultimately show ?case using * by blast
qed (simp add: loop_Nil)

lemma loop_fail_iff:
  "loop acc b = (ys, Some e) \<longleftrightarrow>
   (\<exists>good rest xs. b = good @ rest \<and> parses dec good xs \<and> rest \<noteq> [] \<and> dec rest = Inl e \<and> ys = acc @ xs)"
  using loop_stops [of acc b ys e] by (auto simp: loop_prefix loop_fail)

lemma loop_ok_iff: "loop acc b = (ys, None) \<longleftrightarrow> (\<exists>xs. parses dec b xs \<and> ys = acc @ xs)"
  using loop_parses [of b] loop_ok_parses [of acc b] by fastforce

end

text \<open>The reference loop satisfies the contract for every reader, so its lemmas hold for it.\<close>

function read_all :: "(bytes \<Rightarrow> 'e + 'a \<times> nat) \<Rightarrow> 'a list \<Rightarrow> bytes \<Rightarrow> 'a list \<times> 'e option" where
  "read_all dec acc b =
     (if b = [] then (acc, None)
      else case dec b of Inl e \<Rightarrow> (acc, Some e)
        | Inr (x, n) \<Rightarrow> if n = 0 then (acc, None) else read_all dec (acc @ [x]) (drop n b))"
  by pat_completeness auto
termination
  by (relation "measure (\<lambda>(dec, acc, b). length b)") auto

declare read_all.simps [simp del]

sublocale item_reader \<subseteq> all: list_reader dec "read_all dec"
proof
  show "read_all dec acc [] = (acc, None)" for acc
    by (simp add: read_all.simps)
  show "read_all dec acc b = (acc, Some e)" if "b \<noteq> []" "dec b = Inl e" for acc b e
    using that by (simp add: read_all.simps)
  show "read_all dec acc b = read_all dec (acc @ [x]) (drop n b)"
    if "b \<noteq> []" "dec b = Inr (x, n)" for acc b x n
    using that dec_progress [OF that(2)] by (subst read_all.simps) simp
qed

locale list_codec = list_reader dec loop + item_codec dec enc valid norm
  for dec :: "bytes \<Rightarrow> 'e + 'a \<times> nat" and loop enc valid norm
begin

lemma loop_concat:
  "\<forall>x \<in> set xs. valid x \<Longrightarrow> loop acc (concat (map enc xs)) = (acc @ map norm xs, None)"
  by (rule loop_parses [OF parses_concat])

end

text \<open>Reading a given number of items, which counts the bytes it takes as it goes.\<close>

locale counted_reader = item_reader dec for dec :: "bytes \<Rightarrow> 'e + 'a \<times> nat" +
  fixes loopn :: "nat \<Rightarrow> 'a list \<Rightarrow> bytes \<Rightarrow> nat \<Rightarrow> 'a list \<times> nat \<times> 'e option"
  assumes loopn_0: "loopn 0 acc b r = (acc, r, None)"
    and loopn_fail: "dec b = Inl e \<Longrightarrow>
      \<exists>r'. r \<le> r' \<and> r' \<le> r + length b \<and> loopn (Suc k) acc b r = (acc, r', Some e)"
    and loopn_item: "dec b = Inr (x, n) \<Longrightarrow>
      loopn (Suc k) acc b r = loopn k (acc @ [x]) (drop n b) (r + n)"
begin

lemma loopn_ok:
  "loopn k acc b r = (ys, m, None) \<Longrightarrow>
   r \<le> m \<and> m - r \<le> length b \<and> length ys = length acc + k \<and>
   loopn k acc (take (m - r) b @ rest) r = (ys, m, None)"
proof (induction k arbitrary: acc b r)
  case 0
  then show ?case by (simp add: loopn_0)
next
  case (Suc k)
  then obtain x n where x: "dec b = Inr (x, n)"
    using loopn_fail [of b _ r k acc] by (cases "dec b") fastforce+
  with Suc.prems have step: "loopn k (acc @ [x]) (drop n b) (r + n) = (ys, m, None)"
    by (simp add: loopn_item)
  note IH = Suc.IH [OF step]
  have n: "n \<le> length b" using dec_progress [OF x] by simp
  with IH have m: "r + n \<le> m" "m - r \<le> length b" by auto
  then obtain d where d: "m = r + n + d" using le_Suc_ex by blast
  have "take (m - r) b = take n b @ take d (drop n b)" using d take_add [of n d b] by simp
  moreover have "dec (take n b @ (take d (drop n b) @ rest)) = Inr (x, n)"
    using x by (rule dec_local)
  ultimately show ?case
    using IH m n d by (simp add: loopn_item)
qed

lemma loopn_bounds: "loopn k acc b r = (ys, m, e) \<Longrightarrow> r \<le> m \<and> m \<le> r + length b"
proof (induction k arbitrary: acc b r)
  case 0
  then show ?case by (simp add: loopn_0)
next
  case (Suc k)
  show ?case
  proof (cases "dec b")
    case (Inl e')
    with loopn_fail [OF Inl, of r k acc] Suc.prems show ?thesis by auto
  next
    case (Inr p)
    then obtain x n where x: "dec b = Inr (x, n)" by (cases p) auto
    with Suc show ?thesis using dec_progress [OF x] by (fastforce simp: loopn_item)
  qed
qed

lemma loopn_extends: "\<exists>xs. fst (loopn k acc b r) = acc @ xs"
proof (induction k arbitrary: acc b r)
  case (Suc k)
  show ?case
  proof (cases "dec b")
    case (Inl e)
    with loopn_fail [OF Inl, of r k acc] show ?thesis by auto
  next
    case (Inr p)
    then obtain x n where "dec b = Inr (x, n)" by (cases p) auto
    moreover obtain xs where "fst (loopn k (acc @ [x]) (drop n b) (r + n)) = (acc @ [x]) @ xs"
      using Suc by blast
    ultimately show ?thesis by (simp add: loopn_item)
  qed
qed (simp add: loopn_0)

end

locale counted_codec = counted_reader dec loopn + item_codec dec enc valid norm
  for dec :: "bytes \<Rightarrow> 'e + 'a \<times> nat" and loopn enc valid norm
begin

lemma loopn_concat:
  "\<forall>x \<in> set xs. valid x \<Longrightarrow>
   loopn (length xs) acc (concat (map enc xs) @ rest) r =
     (acc @ map norm xs, r + length (concat (map enc xs)), None)"
  by (induction xs arbitrary: acc r) (simp_all add: loopn_0 loopn_item [OF dec_enc] add.assoc)

end

section \<open>Interfaces: object pools\<close>

text \<open>
  A \<open>sync.Pool\<close> hands out any of the objects put back into it, or a new one; which, is up to
  the runtime. A pool is the list of its objects, and the runtime's choices are a stream of
  picks in the state: \<open>None\<close> for a new object, \<open>Some i\<close> for the \<open>i\<close>-th object.
\<close>

fun pool_take :: "'a list \<Rightarrow> nat option \<Rightarrow> ('a \<times> 'a list) option" where
  "pool_take xs None = None"
| "pool_take xs (Some i) =
     (if i < length xs then Some (xs ! i, take i xs @ drop (Suc i) xs) else None)"

lemma pool_take_Some:
  "pool_take xs c = Some (x, ys) \<Longrightarrow> x \<in> set xs \<and> set ys \<subseteq> set xs \<and> length xs = Suc (length ys)"
  by (cases c) (auto split: if_splits dest: in_set_takeD in_set_dropD)

text \<open>What a user of a pool relies on: the objects in the pool are clean, an acquired object is
  clean, and releasing a live object keeps the pool so.\<close>

locale reset_pool =
  fixes pool_ok :: "'s \<Rightarrow> bool" and acquire :: "'s \<Rightarrow> 'a \<times> 's" and release :: "'a \<Rightarrow> 's \<Rightarrow> 's"
    and clean live :: "'a \<Rightarrow> bool"
  assumes acquire_ok: "pool_ok s \<Longrightarrow> acquire s = (x, s') \<Longrightarrow> clean x \<and> pool_ok s'"
    and release_ok: "pool_ok s \<Longrightarrow> live x \<Longrightarrow> pool_ok (release x s)"
    and clean_live: "clean x \<Longrightarrow> live x"
begin

lemma use_ok:
  assumes "pool_ok s" and "acquire s = (x, s')" and "\<And>y. clean y \<Longrightarrow> live (use y)"
  shows "pool_ok (release (use x) s')"
  using assms acquire_ok [OF assms(1,2)] by (blast intro: release_ok)

lemma release_all_ok: "pool_ok s \<Longrightarrow> \<forall>x \<in> set xs. live x \<Longrightarrow> pool_ok (fold release xs s)"
  by (induction xs arbitrary: s) (auto intro: release_ok)

end

end
