(* ===== verification/Varint.thy ===== *)
theory Varint
  imports Prelude
begin

text \<open>
  Package \<open>varint\<close> (\<open>src/varint/varint.go\<close>): the Peers variable-length integers of the SPOE
  specification. The two loops of the source are recursive functions on 64-bit words; a
  reference encoding on natural numbers (\<open>peers_enc\<close>, \<open>peers_val\<close>), which follows the table
  of the specification, states what they compute, and the laws of the codec are proved there
  and carried over.
\<close>

section \<open>The operations\<close>

definition MaxLen :: nat where
  "MaxLen = 10"

lemma unat_shift_7 [width_simps]:
  "128 \<le> n \<Longrightarrow> unat (drop_bit 7 (n - 128 :: u64)) = (unat n - 128) div 128"
  by (simp add: drop_bit_eq_div width_simps unat_sub)

lemma unat_shift_4 [width_simps]:
  "240 \<le> n \<Longrightarrow> unat (drop_bit 4 (n - 240 :: u64)) = (unat n - 240) div 16"
  by (simp add: drop_bit_eq_div width_simps unat_sub)

lemma shift_7_less: "128 \<le> n \<Longrightarrow> unat (drop_bit 7 (n - 128 :: u64)) < unat n"
  by (simp add: unat_shift_7 word_le_nat_alt)

text \<open>\<open>put_loop n s\<close> is the loop at line 49 and the store after it, where \<open>s\<close> holds the
  bytes already written to the scratch array. The array has \<^const>\<open>MaxLen\<close> entries and
  indexing past it would panic; \<open>length_put_scratch\<close> shows that it never happens.\<close>

function put_loop :: "u64 \<Rightarrow> bytes \<Rightarrow> bytes" where
  "put_loop n s =
     (if 128 \<le> n then put_loop (drop_bit 7 (n - 128)) (s @ [ucast n OR 128])
      else s @ [ucast n])"
  by pat_completeness auto
termination
  by (relation "measure (\<lambda>(n, s). unat n)") (auto simp: shift_7_less)

declare put_loop.simps [simp del]

definition put_scratch :: "u64 \<Rightarrow> bytes" where
  "put_scratch n =
     (if n < 240 then [ucast n]
      else put_loop (drop_bit 4 (n - 240)) [ucast n OR 0xF0])"

text \<open>\<open>PutUvarint\<close> returns the destination buffer, which the source updates in place, and the
  number of bytes written or \<open>-1\<close>.\<close>

definition PutUvarint :: "bytes \<Rightarrow> u64 \<Rightarrow> bytes \<times> int" where
  "PutUvarint buf n =
     (let s = put_scratch n; p = length s
      in if length buf < p then (buf, -1) else (s @ drop p buf, int p))"

text \<open>\<open>uvarint_loop n r p rest\<close> is the loop at line 84 with \<open>rest\<close> the part of the buffer
  behind index \<open>p\<close>, that is \<open>buf[p+1:]\<close>. A shift by 64 or more gives 0 in Go, and so it
  does for \<^const>\<open>push_bit\<close> on a word.\<close>

fun uvarint_loop :: "u64 \<Rightarrow> nat \<Rightarrow> nat \<Rightarrow> bytes \<Rightarrow> u64 \<times> int" where
  "uvarint_loop n r p [] = (0, -1)"
| "uvarint_loop n r p (b # rest) =
     (let n' = n + push_bit r (ucast b)
      in if b < 128 then (n', int (p + 1) + 1) else uvarint_loop n' (r + 7) (p + 1) rest)"

fun Uvarint :: "bytes \<Rightarrow> u64 \<times> int" where
  "Uvarint [] = (0, -1)"
| "Uvarint (b # rest) =
     (let n = ucast b in if n < 240 then (n, 1) else uvarint_loop n 4 0 rest)"

section \<open>The reference encoding\<close>

text \<open>The bytes after the first carry 7 bits each, least significant first; a byte with its
  top bit set is followed by another and contributes that bit to the value as well.\<close>

fun tail_enc :: "nat \<Rightarrow> bytes" where
  "tail_enc n =
     (if n < 128 then [word_of_nat n]
      else word_of_nat (n mod 128 + 128) # tail_enc ((n - 128) div 128))"

declare tail_enc.simps [simp del]

fun tail_val :: "bytes \<Rightarrow> (nat \<times> nat) option" where
  "tail_val [] = None"
| "tail_val (b # bs) =
     (if unat b < 128 then Some (unat b, 1)
      else map_option (\<lambda>(v, k). (unat b + 128 * v, k + 1)) (tail_val bs))"

definition peers_enc :: "nat \<Rightarrow> bytes" where
  "peers_enc n =
     (if n < 240 then [word_of_nat n]
      else word_of_nat (n mod 16 + 240) # tail_enc ((n - 240) div 16))"

fun peers_val :: "bytes \<Rightarrow> (nat \<times> nat) option" where
  "peers_val [] = None"
| "peers_val (b # bs) =
     (if unat b < 240 then Some (unat b, 1)
      else map_option (\<lambda>(v, k). (unat b + 16 * v, k + 1)) (tail_val bs))"

lemma tail_val_enc: "tail_val (tail_enc n @ rest) = Some (n, length (tail_enc n))"
proof (induction n rule: tail_enc.induct)
  case (1 n)
  show ?case
  proof (cases "n < 128")
    case True
    then show ?thesis by (simp add: tail_enc.simps [of n])
  next
    case False
    then have "n mod 128 + 128 + 128 * ((n - 128) div 128) = n"
      using digit_split [of 128 1 n] by simp
    with False 1 show ?thesis by (simp add: tail_enc.simps [of n] del: of_nat_add)
  qed
qed

lemma peers_val_enc: "peers_val (peers_enc n @ rest) = Some (n, length (peers_enc n))"
proof (cases "n < 240")
  case True
  then show ?thesis by (simp add: peers_enc_def)
next
  case False
  then have "n mod 16 + 240 + 16 * ((n - 240) div 16) = n"
    using digit_split [of 16 15 n] by simp
  with False show ?thesis by (simp add: peers_enc_def tail_val_enc del: of_nat_add)
qed

lemma tail_enc_val: "tail_val bs = Some (v, k) \<Longrightarrow> tail_enc v = take k bs"
proof (induction bs arbitrary: v k)
  case (Cons b bs)
  show ?case
  proof (cases "unat b < 128")
    case True
    with Cons.prems show ?thesis by (auto simp: tail_enc.simps [of v])
  next
    case False
    with Cons.prems obtain w j where w: "tail_val bs = Some (w, j)"
      and v: "v = unat b + 128 * w" and k: "k = j + 1"
      by auto
    from False v have "\<not> v < 128" and "(v - 128) div 128 = w" and "v mod 128 + 128 = unat b"
      using unat_byte_less [of b] digit_join [of 128 1 "unat b" w] by simp_all
    with k Cons.IH [OF w] show ?thesis by (simp add: tail_enc.simps [of v])
  qed
qed simp

lemma peers_enc_val: "peers_val bs = Some (v, k) \<Longrightarrow> peers_enc v = take k bs"
proof (cases bs)
  case (Cons b bs')
  assume val: "peers_val bs = Some (v, k)"
  show ?thesis
  proof (cases "unat b < 240")
    case True
    with val Cons show ?thesis by (auto simp: peers_enc_def)
  next
    case False
    with val Cons obtain w j where w: "tail_val bs' = Some (w, j)"
      and v: "v = unat b + 16 * w" and k: "k = j + 1"
      by auto
    from False v have "\<not> v < 240" and "(v - 240) div 16 = w" and "v mod 16 + 240 = unat b"
      using unat_byte_less [of b] digit_join [of 16 15 "unat b" w] by simp_all
    with k Cons tail_enc_val [OF w] show ?thesis by (simp add: peers_enc_def)
  qed
qed simp

lemma tail_val_bounds: "tail_val bs = Some (v, k) \<Longrightarrow> 0 < k \<and> k \<le> length bs"
  by (induction bs arbitrary: v k) (auto split: if_splits)

lemma peers_val_bounds: "peers_val bs = Some (v, k) \<Longrightarrow> 0 < k \<and> k \<le> length bs"
  by (cases bs) (auto split: if_splits dest: tail_val_bounds)

lemma tail_val_local: "tail_val bs = Some (v, k) \<Longrightarrow> tail_val (take k bs @ rest) = Some (v, k)"
  by (induction bs arbitrary: v k) (auto split: if_splits)

lemma peers_val_local:
  "peers_val bs = Some (v, k) \<Longrightarrow> peers_val (take k bs @ rest) = Some (v, k)"
  by (cases bs) (auto split: if_splits dest: tail_val_local)

lemma tail_val_None: "tail_val bs = None \<longleftrightarrow> (\<forall>b \<in> set bs. 128 \<le> unat b)"
  by (induction bs) auto

lemma peers_val_None:
  "peers_val bs = None \<longleftrightarrow> bs = [] \<or> 240 \<le> unat (hd bs) \<and> (\<forall>b \<in> set (tl bs). 128 \<le> unat b)"
  by (cases bs) (auto simp: tail_val_None)

section \<open>The operations compute the reference encoding\<close>

lemma put_loop_eq: "put_loop n s = s @ tail_enc (unat n)"
proof (induction n s rule: put_loop.induct)
  case (1 n s)
  show ?case
  proof (cases "128 \<le> n")
    case True
    have "(ucast n OR 128 :: byte) = word_of_nat (unat n mod 128 + 128)"
      by (rule byte_of_nat_eqI) (simp_all add: width_simps mod_mod_cancel)
    with 1 True show ?thesis
      by (simp add: put_loop.simps [of n] tail_enc.simps [of "unat n"] width_simps
          word_le_nat_alt)
  next
    case False
    then have "ucast n = (word_of_nat (unat n) :: byte)"
      by (intro byte_of_nat_eqI) (simp_all add: width_simps word_le_nat_alt)
    with False show ?thesis
      by (simp add: put_loop.simps [of n] tail_enc.simps [of "unat n"] word_le_nat_alt)
  qed
qed

lemma put_scratch_eq: "put_scratch n = peers_enc (unat n)"
proof (cases "n < 240")
  case True
  then have "ucast n = (word_of_nat (unat n) :: byte)"
    by (intro byte_of_nat_eqI) (simp_all add: width_simps word_less_nat_alt)
  with True show ?thesis by (simp add: put_scratch_def peers_enc_def word_less_nat_alt)
next
  case False
  have "(ucast n OR 240 :: byte) = word_of_nat (unat n mod 16 + 240)"
    by (rule byte_of_nat_eqI) (simp_all add: width_simps mod_mod_cancel)
  with False show ?thesis
    by (simp add: put_scratch_def peers_enc_def put_loop_eq width_simps word_less_nat_alt
        word_le_nat_alt)
qed

lemma uvarint_loop_eq:
  "uvarint_loop n r p bs =
     (case tail_val bs of None \<Rightarrow> (0, -1)
      | Some (v, k) \<Rightarrow> (n + word_of_nat (2 ^ r * v), int (p + 1 + k)))"
proof (induction bs arbitrary: n r p)
  case (Cons b bs)
  have "push_bit r (ucast b) = (word_of_nat (2 ^ r * unat b) :: u64)"
    by (simp add: push_bit_eq_mult mult.commute unsigned_ucast_eq)
  moreover have "b < 128 \<longleftrightarrow> unat b < 128"
    by (simp add: word_less_nat_alt)
  ultimately show ?case
    by (cases "tail_val bs") (auto simp: Cons.IH Let_def power_add algebra_simps)
qed simp

lemma Uvarint_eq:
  "Uvarint bs =
     (case peers_val bs of None \<Rightarrow> (0, -1) | Some (v, k) \<Rightarrow> (word_of_nat v, int k))"
proof (cases bs)
  case (Cons b bs')
  have "(ucast b :: u64) < 240 \<longleftrightarrow> unat b < 240"
    by (simp add: word_less_nat_alt width_simps)
  with Cons show ?thesis
    by (cases "tail_val bs'") (auto simp: uvarint_loop_eq Let_def)
qed simp

section \<open>Widths\<close>

fun tail_floor :: "nat \<Rightarrow> nat" where
  "tail_floor 0 = 0"
| "tail_floor (Suc k) = 128 + 128 * tail_floor k"

lemma length_tail_enc_ge: "Suc k \<le> length (tail_enc n) \<longleftrightarrow> tail_floor k \<le> n"
proof (induction n arbitrary: k rule: tail_enc.induct)
  case (1 n)
  show ?case
  proof (cases "n < 128 \<or> k = 0")
    case True
    then show ?thesis
      by (cases k) (auto simp: tail_enc.simps [of n])
  next
    case False
    then obtain j where "k = Suc j" and "128 \<le> n" by (cases k) auto
    with 1 [of j] show ?thesis
      by (auto simp: tail_enc.simps [of n] less_eq_div_iff_mult_less_eq)
  qed
qed

lemma length_peers_enc_ge:
  "Suc (Suc k) \<le> length (peers_enc n) \<longleftrightarrow> 240 + 16 * tail_floor k \<le> n"
  using length_tail_enc_ge [of k "(n - 240) div 16"]
  by (auto simp: peers_enc_def less_eq_div_iff_mult_less_eq)

lemma tail_floor_numeral:
  "tail_floor (numeral k) = 128 + 128 * tail_floor (pred_numeral k)"
  by (simp add: numeral_eq_Suc)

lemma length_put_scratch: "0 < length (put_scratch n)" "length (put_scratch n) \<le> MaxLen"
proof -
  show "0 < length (put_scratch n)"
    by (simp add: put_scratch_eq peers_enc_def)
  show "length (put_scratch n) \<le> MaxLen"
    using length_peers_enc_ge [of 9 "unat n"] unat_u64_less [of n]
    by (simp add: put_scratch_eq MaxLen_def tail_floor_numeral)
qed

section \<open>The interface to the packages that use it\<close>

text \<open>What the other packages rely on: an integer written is the integer read back and the
  reader reports the writer's width; a read stays inside the buffer and depends only on the
  bytes it took; a failed read is \<open>(0, -1)\<close>.\<close>

locale varint_codec =
  fixes put :: "u64 \<Rightarrow> bytes" and get :: "bytes \<Rightarrow> u64 \<times> int"
  assumes get_put: "get (put n @ rest) = (n, int (length (put n)))"
    and get_bounds: "get b = (v, k) \<Longrightarrow> 0 \<le> k \<Longrightarrow> 0 < nat k \<and> nat k \<le> length b"
    and get_local: "get b = (v, k) \<Longrightarrow> 0 \<le> k \<Longrightarrow> get (take (nat k) b @ rest) = (v, k)"
    and get_fail: "get b = (v, k) \<Longrightarrow> k < 0 \<Longrightarrow> v = 0 \<and> k = -1"
begin

lemma put_nonempty: "put n \<noteq> []"
  using get_bounds [OF get_put [of n "[]"]] by auto

lemma get_split:
  assumes "get b = (v, k)" and "0 \<le> k"
  obtains c where "length c = nat k" and "c \<noteq> []" and "b = c @ drop (nat k) b"
    and "\<And>rest. get (c @ rest) = (v, k)"
proof
  show "length (take (nat k) b) = nat k" using get_bounds [OF assms] by simp
  show "take (nat k) b \<noteq> []" using get_bounds [OF assms] by auto
  show "b = take (nat k) b @ drop (nat k) b" by simp
  show "get (take (nat k) b @ rest) = (v, k)" for rest using assms by (rule get_local)
qed

lemma put_injective: "put m @ r = put n @ s \<Longrightarrow> m = n \<and> r = s"
  using get_put [of m r] get_put [of n s] by (auto simp: append_eq_append_conv)

end

interpretation uv: varint_codec put_scratch Uvarint
proof
  show "Uvarint (put_scratch n @ rest) = (n, int (length (put_scratch n)))" for n rest
    by (simp add: Uvarint_eq put_scratch_eq peers_val_enc)
  show "0 < nat k \<and> nat k \<le> length b" if "Uvarint b = (v, k)" "0 \<le> k" for b v k
    using that by (auto simp: Uvarint_eq split: option.splits dest: peers_val_bounds)
  show "Uvarint (take (nat k) b @ rest) = (v, k)" if "Uvarint b = (v, k)" "0 \<le> k" for b v k rest
    using that peers_val_local [of b _ "nat k" rest] by (auto simp: Uvarint_eq split: option.splits)
  show "v = 0 \<and> k = -1" if "Uvarint b = (v, k)" "k < 0" for b v k
    using that by (auto simp: Uvarint_eq split: option.splits)
qed

text \<open>A length-prefixed byte string, which keys, names and string values all are.\<close>

datatype prefixed_error = PrefixTruncated | PrefixTooLong u64 nat

definition put_prefixed :: "gostring \<Rightarrow> bytes" where
  "put_prefixed s = put_scratch (word_of_nat (length s)) @ s"

definition read_prefixed :: "bytes \<Rightarrow> prefixed_error + gostring \<times> nat" where
  "read_prefixed b =
     (case Uvarint b of (len, n) \<Rightarrow>
        if n < 0 then Inl PrefixTruncated
        else let b' = drop (nat n) b in
          if length b' < unat len then Inl (PrefixTooLong len (length b'))
          else Inr (take (unat len) b', nat n + unat len))"

abbreviation go_sized :: "gostring \<Rightarrow> bool" where
  "go_sized s \<equiv> length s < 2 ^ 63"

lemma unat_go_sized: "go_sized s \<Longrightarrow> unat (word_of_nat (length s) :: u64) = length s"
  by (simp add: unat_of_nat)

interpretation prefixed: item_codec read_prefixed put_prefixed go_sized id
proof
  show "0 < n \<and> n \<le> length b" if "read_prefixed b = Inr (x, n)" for b x n
    using that by (auto simp: read_prefixed_def Let_def split: prod.splits if_splits dest!: uv.get_bounds)
  show "read_prefixed (take n b @ rest) = Inr (x, n)" if ok: "read_prefixed b = Inr (x, n)" for b x n rest
  proof -
    obtain len k where u: "Uvarint b = (len, k)" by fastforce
    with ok have k: "0 \<le> k" and n: "n = nat k + unat len"
      and x: "x = take (unat len) (drop (nat k) b)" and len: "unat len \<le> length (drop (nat k) b)"
      by (auto simp: read_prefixed_def Let_def split: if_splits)
    from uv.get_split [OF u k] obtain c where c: "length c = nat k" "b = c @ drop (nat k) b"
      and u': "\<And>rest. Uvarint (c @ rest) = (len, k)" by blast
    have "take n b = c @ x" using c n x by (metis take_add take_append_length drop_append_length)
    with u' c x len n k show ?thesis by (simp add: read_prefixed_def)
  qed
  show "read_prefixed (put_prefixed x @ rest) = Inr (id x, length (put_prefixed x))" if "go_sized x" for x rest
    using that by (simp add: read_prefixed_def put_prefixed_def uv.get_put unat_go_sized)
qed

section \<open>Properties\<close>

lemma PutUvarint_fits:
  "length (put_scratch n) \<le> length buf \<Longrightarrow>
   PutUvarint buf n = (put_scratch n @ drop (length (put_scratch n)) buf, int (length (put_scratch n)))"
  by (simp add: PutUvarint_def Let_def)

text \<open>C1. Whenever \<open>PutUvarint\<close> reports a width, reading its buffer gives back the integer and
  that width, and the bytes behind the encoding are as they were.\<close>

theorem PutUvarint_roundtrip:
  assumes "PutUvarint buf n = (buf', p)" and "0 \<le> p"
  shows "Uvarint buf' = (n, p) \<and> length buf' = length buf \<and> drop (nat p) buf' = drop (nat p) buf"
proof -
  from assms have "length (put_scratch n) \<le> length buf"
    by (auto simp: PutUvarint_def Let_def split: if_splits)
  with assms(1) show ?thesis by (auto simp: PutUvarint_fits uv.get_put)
qed

theorem PutUvarint_roundtrip_witness:
  "Uvarint [255, 137, 1, 7] = (4495, 3) \<and> drop 3 [255, 137, 1, 7 :: byte] = drop 3 [0, 0, 0, 7]"
proof -
  have "PutUvarint [0, 0, 0, 7] 4495 = ([255, 137, 1, 7], 3)"
    by (simp add: PutUvarint_def put_scratch_def put_loop.simps word_le_nat_alt)
  from PutUvarint_roundtrip [OF this] show ?thesis by simp
qed

text \<open>C2. \<open>PutUvarint\<close> fails exactly when the destination is shorter than the encoding, and
  then leaves it as it was; a destination of \<open>MaxLen\<close> bytes is never too short, so the slice
  expressions on its result cannot panic.\<close>

theorem PutUvarint_short_buffer:
  "(snd (PutUvarint buf n) = -1 \<longleftrightarrow> length buf < length (peers_enc (unat n))) \<and>
   (length buf < length (peers_enc (unat n)) \<longrightarrow> PutUvarint buf n = (buf, -1)) \<and>
   (MaxLen \<le> length buf \<longrightarrow> 0 < snd (PutUvarint buf n) \<and> snd (PutUvarint buf n) \<le> int MaxLen)"
  using length_put_scratch [of n] by (auto simp: PutUvarint_def put_scratch_eq Let_def)

theorem PutUvarint_short_buffer_witness:
  "PutUvarint [1, 2] 4495 = ([1, 2], -1) \<and> 0 < snd (PutUvarint (replicate 10 0) 4495)"
proof -
  have "length [1, 2 :: byte] < length (peers_enc (unat (4495 :: u64)))"
    by (simp add: peers_enc_def tail_enc.simps)
  with PutUvarint_short_buffer [of "[1, 2]" 4495] PutUvarint_short_buffer [of "replicate 10 0" 4495]
  show ?thesis by (simp add: MaxLen_def)
qed

text \<open>C3. The number of bytes \<open>PutUvarint\<close> needs is the one the table of the SPOE specification
  gives, for each of the ten widths a 64-bit value can take.\<close>

theorem PutUvarint_width:
  "snd (PutUvarint (replicate MaxLen 0) n) =
     (if n < 240 then 1
      else if n < 2288 then 2
      else if n < 264432 then 3
      else if n < 33818864 then 4
      else if n < 4328786160 then 5
      else if n < 554084600048 then 6
      else if n < 70922828777712 then 7
      else if n < 9078122083518704 then 8
      else if n < 1161999626690365680 then 9
      else 10)"
proof -
  define L where "L = length (put_scratch n)"
  have L: "snd (PutUvarint (replicate MaxLen 0) n) = int L" "0 < L" "L \<le> 10"
    using length_put_scratch [of n] by (simp_all add: PutUvarint_fits L_def MaxLen_def)
  have ge: "Suc (Suc k) \<le> L \<longleftrightarrow> 240 + 16 * tail_floor k \<le> unat n" for k
    by (simp add: L_def put_scratch_eq length_peers_enc_ge)
  note bounds = ge [of 0] ge [of 1] ge [of 2] ge [of 3] ge [of 4] ge [of 5] ge [of 6] ge [of 7]
    ge [of 8]
  have "L = 1 \<or> L = 2 \<or> L = 3 \<or> L = 4 \<or> L = 5 \<or> L = 6 \<or> L = 7 \<or> L = 8 \<or> L = 9 \<or> L = 10"
    using L(2,3) by presburger
  then consider "L = 1" | "L = 2" | "L = 3" | "L = 4" | "L = 5" | "L = 6" | "L = 7" | "L = 8"
    | "L = 9" | "L = 10"
    by blast
  then show ?thesis
    by cases (use bounds L(1) in \<open>simp_all add: tail_floor_numeral word_less_nat_alt\<close>)
qed

text \<open>C4. On every buffer \<open>Uvarint\<close> returns the value of the reference decoder, which works on
  unbounded numbers, reduced to 64 bits, with the number of bytes of its encoding; it fails
  exactly when the buffer ends before a byte that closes the integer.\<close>

theorem Uvarint_reference:
  "Uvarint bs =
     (case peers_val bs of None \<Rightarrow> (0, -1) | Some (v, k) \<Rightarrow> (word_of_nat v, int k)) \<and>
   (peers_val bs = None \<longleftrightarrow>
      bs = [] \<or> 240 \<le> unat (hd bs) \<and> list_all (\<lambda>b. 128 \<le> unat b) (tl bs))"
  by (simp add: Uvarint_eq peers_val_None list_all_iff)

text \<open>C5. The encoding is canonical: a byte string that \<open>Uvarint\<close> accepts is the one
  \<open>PutUvarint\<close> writes for the value, unless the value it spells does not fit 64 bits.\<close>

theorem Uvarint_canonical:
  assumes "peers_val bs = Some (v, k)" and "v < 2 ^ 64"
  shows "Uvarint bs = (word_of_nat v, int k) \<and>
    PutUvarint bs (word_of_nat v) = (bs, int k)"
proof -
  have s: "put_scratch (word_of_nat v) = take k bs"
    using assms by (simp add: put_scratch_eq unat_of_nat peers_enc_val)
  have k: "k \<le> length bs" using peers_val_bounds [OF assms(1)] by simp
  with s have "PutUvarint bs (word_of_nat v) = (bs, int k)"
    by (simp add: PutUvarint_def Let_def)
  with assms show ?thesis by (simp add: Uvarint_eq)
qed

theorem Uvarint_canonical_witness:
  "Uvarint [255, 137, 1, 7] = (4495, 3) \<and> PutUvarint [255, 137, 1, 7] 4495 = ([255, 137, 1, 7], 3)"
proof -
  have "peers_val [255, 137, 1, 7] = Some (4495, 3)" by simp
  from Uvarint_canonical [OF this] show ?thesis by simp
qed

end
