(* ===== verification/TypedData.thy ===== *)
theory TypedData
  imports Varint
begin

text \<open>
  Package \<open>typeddata\<close> (\<open>src/typeddata/typeddata.go\<close>): the TYPED-DATA encoding of a Go value.

  A value of type \<open>any\<close> is a \<open>go_value\<close>: one constructor per dynamic type the package's type
  switch names, and \<open>VOther\<close> for a value of any other type, which carries the name \<open>reflect\<close>
  prints for it. Signed integers are words in two's complement, so that \<open>uint64(v)\<close> is a
  sign extension (\<open>scast\<close>) and \<open>int32(i)\<close> a truncation (\<open>ucast\<close>); \<open>int\<close> and \<open>uint\<close> have
  64 bits, as on every platform HAProxy agents run on. A nil and an empty \<open>net.IP\<close> or slice
  behave alike here and are both the empty list.
\<close>

section \<open>Values and errors\<close>

datatype go_value =
    VNil
  | VBool bool
  | VInt32 u32
  | VUint32 u32
  | VInt u64
  | VInt64 u64
  | VUint u64
  | VUint64 u64
  | VString gostring
  | VIP bytes
  | VBytes bytes
  | VOther string

datatype td_error =
    ErrEmptyBuffer
  | ErrDecodingBufferTooSmall
  | ErrTruncatedVarint
  | ErrInvalidIP nat
  | EncodeUnsupported string
  | DecodeUnsupported byte

definition TypeNull :: byte where "TypeNull = 0"
definition TypeBoolean :: byte where "TypeBoolean = 1"
definition TypeInt32 :: byte where "TypeInt32 = 2"
definition TypeUInt32 :: byte where "TypeUInt32 = 3"
definition TypeInt64 :: byte where "TypeInt64 = 4"
definition TypeUInt64 :: byte where "TypeUInt64 = 5"
definition TypeIPv4 :: byte where "TypeIPv4 = 6"
definition TypeIPv6 :: byte where "TypeIPv6 = 7"
definition TypeString :: byte where "TypeString = 8"
definition TypeBinary :: byte where "TypeBinary = 9"

lemmas td_type_defs = TypeNull_def TypeBoolean_def TypeInt32_def TypeUInt32_def TypeInt64_def
  TypeUInt64_def TypeIPv4_def TypeIPv6_def TypeString_def TypeBinary_def

section \<open>The parts of package \<open>net\<close> it uses\<close>

definition IPv4len :: nat where "IPv4len = 4"
definition IPv6len :: nat where "IPv6len = 16"

definition v4InV6Prefix :: bytes where
  "v4InV6Prefix = replicate 10 0 @ [0xFF, 0xFF]"

definition To4 :: "bytes \<Rightarrow> bytes option" where
  "To4 ip =
     (if length ip = IPv4len then Some ip
      else if length ip = IPv6len \<and> take 12 ip = v4InV6Prefix then Some (drop 12 ip)
      else None)"

definition To16 :: "bytes \<Rightarrow> bytes option" where
  "To16 ip =
     (if length ip = IPv4len then Some (v4InV6Prefix @ ip)
      else if length ip = IPv6len then Some ip
      else None)"

section \<open>Encode and Decode\<close>

text \<open>\<open>put_fresh v\<close> is the sequence every numeric case of \<open>Encode\<close> runs: a fresh buffer of
  \<^const>\<open>MaxLen\<close> bytes, \<^const>\<open>PutUvarint\<close>, and the slice \<open>b[:i]\<close>, which would panic for a
  negative \<open>i\<close>; \<open>put_fresh_eq\<close> shows that \<open>i\<close> is the width of the encoding.\<close>

definition put_fresh :: "u64 \<Rightarrow> bytes \<times> int" where
  "put_fresh v = (let (b, i) = PutUvarint (replicate MaxLen 0) v in (take (nat i) b, i))"

lemma put_fresh_eq: "put_fresh v = (put_scratch v, int (length (put_scratch v)))"
  using length_put_scratch [of v] by (simp add: put_fresh_def PutUvarint_fits)

fun Encode :: "go_value \<Rightarrow> bytes \<Rightarrow> td_error + bytes \<times> nat" where
  "Encode VNil buf = Inr (buf @ [TypeNull], 1)"
| "Encode (VBool v) buf = (let b = (if \<not> v then 0x01 else 0x11) in Inr (buf @ [b], 1))"
| "Encode (VInt32 v) buf =
     (let buf = buf @ [TypeInt32]; (b, i) = put_fresh (scast v) in Inr (buf @ b, nat i + 1))"
| "Encode (VUint32 v) buf =
     (let buf = buf @ [TypeUInt32]; (b, i) = put_fresh (ucast v) in Inr (buf @ b, nat i + 1))"
| "Encode (VInt v) buf =
     (let buf = buf @ [TypeInt64]; (b, i) = put_fresh v in Inr (buf @ b, nat i + 1))"
| "Encode (VInt64 v) buf =
     (let buf = buf @ [TypeInt64]; (b, i) = put_fresh v in Inr (buf @ b, nat i + 1))"
| "Encode (VUint v) buf =
     (let buf = buf @ [TypeUInt64]; (b, i) = put_fresh v in Inr (buf @ b, nat i + 1))"
| "Encode (VUint64 v) buf =
     (let buf = buf @ [TypeUInt64]; (b, i) = put_fresh v in Inr (buf @ b, nat i + 1))"
| "Encode (VString v) buf =
     (let n = 1; buf = buf @ [TypeString]; (b, i) = put_fresh (word_of_nat (length v));
          n = n + nat i; n = n + length v
      in Inr (buf @ b @ v, n))"
| "Encode (VIP v) buf =
     (case To4 v of
        Some v4 \<Rightarrow> Inr (buf @ [TypeIPv4] @ v4, 1 + IPv4len)
      | None \<Rightarrow>
          (case To16 v of
             None \<Rightarrow> Inl (ErrInvalidIP (length v))
           | Some v6 \<Rightarrow> Inr (buf @ [TypeIPv6] @ v6, 1 + IPv6len)))"
| "Encode (VBytes v) buf =
     (let n = 1; buf = buf @ [TypeBinary]; (b, i) = put_fresh (word_of_nat (length v));
          n = n + nat i; n = n + length v
      in Inr (buf @ b @ v, n))"
| "Encode (VOther t) buf = Inl (EncodeUnsupported t)"

text \<open>\<open>Decode\<close> returns its byte count together with the error as well; the value is nil then.\<close>

fun Decode :: "bytes \<Rightarrow> nat \<times> td_error + go_value \<times> nat" where
  "Decode [] = Inl (0, ErrEmptyBuffer)"
| "Decode (h # buf) =
     (let f = drop_bit 4 h; t = h AND 0x0F; n = 1 in
      if t = TypeNull then Inr (VNil, n)
      else if t = TypeBoolean then Inr (VBool (f AND 0x01 > 0), n)
      else if t = TypeInt32 then
        (case Uvarint buf of (i, l) \<Rightarrow>
           if l < 0 then Inl (n, ErrTruncatedVarint) else Inr (VInt32 (ucast i), n + nat l))
      else if t = TypeUInt32 then
        (case Uvarint buf of (i, l) \<Rightarrow>
           if l < 0 then Inl (n, ErrTruncatedVarint) else Inr (VUint32 (ucast i), n + nat l))
      else if t = TypeInt64 then
        (case Uvarint buf of (i, l) \<Rightarrow>
           if l < 0 then Inl (n, ErrTruncatedVarint) else Inr (VInt64 i, n + nat l))
      else if t = TypeUInt64 then
        (case Uvarint buf of (i, l) \<Rightarrow>
           if l < 0 then Inl (n, ErrTruncatedVarint) else Inr (VUint64 i, n + nat l))
      else if t = TypeIPv4 then
        (if length buf < IPv4len then Inl (n, ErrDecodingBufferTooSmall)
         else Inr (VIP (take IPv4len buf), n + IPv4len))
      else if t = TypeIPv6 then
        (if length buf < IPv6len then Inl (n, ErrDecodingBufferTooSmall)
         else Inr (VIP (take IPv6len buf), n + IPv6len))
      else if t = TypeString then
        (case Uvarint buf of (sLen, i) \<Rightarrow>
           if i < 0 then Inl (n, ErrTruncatedVarint)
           else let n = n + nat i; buf = drop (nat i) buf in
             if length buf < unat sLen then Inl (n, ErrDecodingBufferTooSmall)
             else Inr (VString (take (unat sLen) buf), n + unat sLen))
      else if t = TypeBinary then
        (case Uvarint buf of (dataLen, i) \<Rightarrow>
           if i < 0 then Inl (n, ErrTruncatedVarint)
           else let n = n + nat i; buf = drop (nat i) buf in
             if length buf < unat dataLen then Inl (n, ErrDecodingBufferTooSmall)
             else Inr (VBytes (take (unat dataLen) buf), n + unat dataLen))
      else Inl (n, DecodeUnsupported t))"

declare Decode.simps(2) [simp del]

section \<open>What Encode writes\<close>

definition td_bytes :: "go_value \<Rightarrow> bytes" where
  "td_bytes v = (case Encode v [] of Inl e \<Rightarrow> [] | Inr (b, n) \<Rightarrow> b)"

definition encodable :: "go_value \<Rightarrow> bool" where
  "encodable v =
     (case v of VOther t \<Rightarrow> False | VIP ip \<Rightarrow> length ip = 4 \<or> length ip = 16 | _ \<Rightarrow> True)"

definition td_sized :: "go_value \<Rightarrow> bool" where
  "td_sized v = (case v of VString s \<Rightarrow> go_sized s | VBytes b \<Rightarrow> go_sized b | _ \<Rightarrow> True)"

text \<open>The normal form a value has once it has crossed the wire: Go's \<open>int\<close> and \<open>uint\<close> come
  back with their width, and an IPv4 address in its 16-byte form comes back in four bytes.\<close>

definition td_norm :: "go_value \<Rightarrow> go_value" where
  "td_norm v =
     (case v of VInt w \<Rightarrow> VInt64 w | VUint w \<Rightarrow> VUint64 w
      | VIP ip \<Rightarrow> VIP (case To4 ip of Some v4 \<Rightarrow> v4 | None \<Rightarrow> ip) | _ \<Rightarrow> v)"

lemma To4_length: "To4 ip = Some v4 \<Longrightarrow> length v4 = 4"
  by (auto simp: To4_def IPv4len_def IPv6len_def split: if_splits)

lemma To4_Some_length: "To4 ip = Some v4 \<Longrightarrow> length ip = 4 \<or> length ip = 16"
  by (auto simp: To4_def IPv4len_def IPv6len_def split: if_splits)

lemma To4_None_length: "To4 ip = None \<Longrightarrow> length ip \<noteq> 4"
  by (auto simp: To4_def IPv4len_def)

lemma To16_length: "To16 ip = Some v6 \<Longrightarrow> length v6 = 16"
  by (auto simp: To16_def IPv4len_def IPv6len_def v4InV6Prefix_def split: if_splits)

lemma To16_not_To4: "To4 ip = None \<Longrightarrow> To16 ip = (if length ip = 16 then Some ip else None)"
  by (auto simp: To4_def To16_def IPv4len_def IPv6len_def split: if_splits)

lemma Encode_spec:
  "Encode v buf =
     (if encodable v then Inr (buf @ td_bytes v, length (td_bytes v))
      else Inl (case v of VIP ip \<Rightarrow> ErrInvalidIP (length ip) | VOther t \<Rightarrow> EncodeUnsupported t))"
proof (cases v)
  case (VIP ip)
  show ?thesis
  proof (cases "To4 ip")
    case None
    with VIP To4_None_length [OF None] show ?thesis
      by (simp add: td_bytes_def encodable_def To16_not_To4 IPv6len_def)
  next
    case (Some v4)
    with VIP To4_length [OF Some] To4_Some_length [OF Some] show ?thesis
      by (simp add: td_bytes_def encodable_def IPv4len_def)
  qed
qed (simp_all add: td_bytes_def encodable_def put_fresh_eq)

lemma td_bytes_simps [go_simps]:
  "td_bytes VNil = [TypeNull]"
  "td_bytes (VBool b) = [if b then 0x11 else 0x01]"
  "td_bytes (VInt32 i) = TypeInt32 # put_scratch (scast i)"
  "td_bytes (VUint32 u) = TypeUInt32 # put_scratch (ucast u)"
  "td_bytes (VInt w) = TypeInt64 # put_scratch w"
  "td_bytes (VInt64 w) = TypeInt64 # put_scratch w"
  "td_bytes (VUint w) = TypeUInt64 # put_scratch w"
  "td_bytes (VUint64 w) = TypeUInt64 # put_scratch w"
  "td_bytes (VString s) = TypeString # put_prefixed s"
  "td_bytes (VBytes s) = TypeBinary # put_prefixed s"
  "To4 ip = Some v4 \<Longrightarrow> td_bytes (VIP ip) = TypeIPv4 # v4"
  "To4 ip = None \<Longrightarrow> length ip = 16 \<Longrightarrow> td_bytes (VIP ip) = TypeIPv6 # ip"
  by (simp_all add: td_bytes_def put_fresh_eq put_prefixed_def To16_not_To4)

section \<open>Decode as a reader\<close>

text \<open>The three shapes of a TYPED-DATA body, and \<open>Decode\<close> as a choice among them.\<close>

definition varint_body :: "(u64 \<Rightarrow> go_value) \<Rightarrow> bytes \<Rightarrow> nat \<times> td_error + go_value \<times> nat" where
  "varint_body g buf =
     (case Uvarint buf of (i, l) \<Rightarrow>
        if l < 0 then Inl (1, ErrTruncatedVarint) else Inr (g i, 1 + nat l))"

definition fixed_body :: "nat \<Rightarrow> (bytes \<Rightarrow> go_value) \<Rightarrow> bytes \<Rightarrow> nat \<times> td_error + go_value \<times> nat" where
  "fixed_body k g buf =
     (if length buf < k then Inl (1, ErrDecodingBufferTooSmall) else Inr (g (take k buf), 1 + k))"

definition prefixed_body :: "(bytes \<Rightarrow> go_value) \<Rightarrow> bytes \<Rightarrow> nat \<times> td_error + go_value \<times> nat" where
  "prefixed_body g buf =
     (case read_prefixed buf of
        Inl PrefixTruncated \<Rightarrow> Inl (1, ErrTruncatedVarint)
      | Inl (PrefixTooLong len r) \<Rightarrow> Inl (1 + (length buf - r), ErrDecodingBufferTooSmall)
      | Inr (s, k) \<Rightarrow> Inr (g s, 1 + k))"

lemma prefixed_body_eq:
  "(case Uvarint buf of (len, i) \<Rightarrow>
      if i < 0 then Inl (1, ErrTruncatedVarint)
      else let n = 1 + nat i; buf = drop (nat i) buf in
        if length buf < unat len then Inl (n, ErrDecodingBufferTooSmall)
        else Inr (g (take (unat len) buf), n + unat len)) = prefixed_body g buf"
  by (auto simp: prefixed_body_def read_prefixed_def Let_def split: prod.splits dest!: uv.get_bounds)

definition body_of :: "byte \<Rightarrow> bytes \<Rightarrow> nat \<times> td_error + go_value \<times> nat" where
  "body_of h =
     (let t = h AND 0x0F in
      if t = TypeNull then (\<lambda>buf. Inr (VNil, 1))
      else if t = TypeBoolean then (\<lambda>buf. Inr (VBool (drop_bit 4 h AND 0x01 > 0), 1))
      else if t = TypeInt32 then varint_body (\<lambda>i. VInt32 (ucast i))
      else if t = TypeUInt32 then varint_body (\<lambda>i. VUint32 (ucast i))
      else if t = TypeInt64 then varint_body VInt64
      else if t = TypeUInt64 then varint_body VUint64
      else if t = TypeIPv4 then fixed_body 4 VIP
      else if t = TypeIPv6 then fixed_body 16 VIP
      else if t = TypeString then prefixed_body VString
      else if t = TypeBinary then prefixed_body VBytes
      else (\<lambda>buf. Inl (1, DecodeUnsupported t)))"

lemma Decode_Cons: "Decode (h # buf) = body_of h buf"
  unfolding Decode.simps(2) body_of_def Let_def varint_body_def fixed_body_def
  by (simp only: prefixed_body_eq [unfolded Let_def] if_distribR IPv4len_def IPv6len_def cong: if_cong)

definition local_body :: "(bytes \<Rightarrow> nat \<times> td_error + go_value \<times> nat) \<Rightarrow> bool" where
  "local_body f \<longleftrightarrow>
     (\<forall>b x n rest. f b = Inr (x, n) \<longrightarrow>
        0 < n \<and> n \<le> Suc (length b) \<and> f (take (n - 1) b @ rest) = Inr (x, n))"

lemma local_varint_body: "local_body (varint_body g)"
  unfolding local_body_def varint_body_def
  by (auto split: prod.splits if_splits dest: uv.get_bounds simp: uv.get_local)

lemma local_const_body: "local_body (\<lambda>buf. Inr (v, 1))"
  by (simp add: local_body_def)

lemma local_fail_body: "local_body (\<lambda>buf. Inl e)"
  by (simp add: local_body_def)

lemma local_fixed_body: "local_body (fixed_body k g)"
  unfolding local_body_def fixed_body_def by auto

lemma local_prefixed_body: "local_body (prefixed_body g)"
  unfolding local_body_def prefixed_body_def
  by (auto split: sum.splits prod.splits prefixed_error.splits dest: prefixed.dec_progress
      simp: prefixed.dec_local)

lemma local_body_of: "local_body (body_of h)"
  by (simp add: body_of_def Let_def local_varint_body local_fixed_body local_prefixed_body
      local_const_body local_fail_body del: One_nat_def)

definition failing_body :: "byte \<Rightarrow> (bytes \<Rightarrow> nat \<times> td_error + go_value \<times> nat) \<Rightarrow> bool" where
  "failing_body t f \<longleftrightarrow>
     (\<forall>b n e. f b = Inl (n, e) \<longrightarrow> n \<le> Suc (length b) \<and>
        (e = ErrTruncatedVarint \<or> e = ErrDecodingBufferTooSmall \<or> e = DecodeUnsupported t \<and> 9 < t))"

lemma failing_bodies:
  "failing_body t (varint_body c)" "failing_body t (fixed_body k g)"
  "failing_body t (prefixed_body g)" "failing_body t (\<lambda>buf. Inr r)"
  unfolding failing_body_def varint_body_def fixed_body_def prefixed_body_def
  by (auto split: prod.splits if_splits sum.splits prefixed_error.splits)

lemma above_nine: "9 < t"
  if "t \<noteq> 0" "t \<noteq> 1" "t \<noteq> 2" "t \<noteq> 3" "t \<noteq> 4" "t \<noteq> 5" "t \<noteq> 6" "t \<noteq> 7" "t \<noteq> 8" "t \<noteq> (9 :: byte)"
proof -
  have "unat t \<noteq> k" if "t \<noteq> word_of_nat k" for k
    using that by auto
  from this [of 0] this [of 1] this [of 2] this [of 3] this [of 4] this [of 5] this [of 6]
    this [of 7] this [of 8] this [of 9] that
  have "unat t \<notin> {0, 1, 2, 3, 4, 5, 6, 7, 8, 9}" by simp
  then have "9 < unat t" by (simp add: eval_nat_numeral)
  then show ?thesis by (simp add: word_less_nat_alt)
qed

lemma failing_body_of: "failing_body (h AND 0x0F) (body_of h)"
proof -
  have "failing_body t (\<lambda>buf. Inl (1, DecodeUnsupported t))" if "9 < t" for t
    using that by (simp add: failing_body_def)
  then show ?thesis
    by (simp add: body_of_def Let_def failing_bodies td_type_defs above_nine del: One_nat_def)
qed

text \<open>The round trip of the integers that are narrower than the varint that carries them.\<close>

lemma ucast_scast_u32 [simp]: "ucast (scast (i :: u32) :: u64) = i"
  by (rule bit_word_eqI) (auto simp: bit_simps)

lemma ucast_ucast_u32 [simp]: "ucast (ucast (i :: u32) :: u64) = i"
  by (rule bit_word_eqI) (auto simp: bit_simps)

lemma Decode_td_bytes:
  assumes "encodable v" and "td_sized v"
  shows "Decode (td_bytes v @ rest) = Inr (td_norm v, length (td_bytes v))"
proof (cases v)
  case (VIP ip)
  show ?thesis
  proof (cases "To4 ip")
    case None
    with VIP assms(1) have "length ip = 16"
      using To4_None_length [OF None] by (simp add: encodable_def)
    with None VIP show ?thesis
      by (simp add: go_simps td_norm_def Decode_Cons body_of_def td_type_defs fixed_body_def)
  next
    case (Some v4)
    with VIP To4_length [OF Some] show ?thesis
      by (simp add: go_simps td_norm_def Decode_Cons body_of_def td_type_defs fixed_body_def)
  qed
next
  case (VOther t)
  with assms(1) show ?thesis by (simp add: encodable_def)
qed (use assms(2) in \<open>simp_all add: go_simps td_norm_def td_sized_def Decode_Cons body_of_def
       td_type_defs varint_body_def prefixed_body_def uv.get_put prefixed.dec_enc\<close>)

interpretation td: item_codec Decode td_bytes "\<lambda>v. encodable v \<and> td_sized v" td_norm
proof
  show "0 < n \<and> n \<le> length b" if "Decode b = Inr (x, n)" for b x n
    using that local_body_of by (cases b) (auto simp: Decode_Cons local_body_def)
  show "Decode (take n b @ rest) = Inr (x, n)" if "Decode b = Inr (x, n)" for b x n rest
  proof (cases b)
    case (Cons h t)
    with that have *: "body_of h t = Inr (x, n)" by (simp add: Decode_Cons)
    with local_body_of [of h] have "0 < n" and "body_of h (take (n - 1) t @ rest) = Inr (x, n)"
      unfolding local_body_def by blast+
    with Cons show ?thesis by (cases n) (simp_all add: Decode_Cons)
  qed (use that in simp)
  show "Decode (td_bytes v @ rest) = Inr (td_norm v, length (td_bytes v))"
    if "encodable v \<and> td_sized v" for v rest
    using that by (simp add: Decode_td_bytes)
qed

section \<open>Properties\<close>

text \<open>C6. A value that \<open>Encode\<close> accepts is appended to the buffer as the reported number of
  bytes, and decoding at that place gives the value in its normal form and the same count,
  whatever follows: \<open>int\<close> and \<open>uint\<close> come back as 64-bit integers, an IPv4 address comes back
  as four bytes, everything else unchanged.\<close>

theorem Encode_Decode_roundtrip:
  assumes "Encode v buf = Inr (buf', n)" and "td_sized v"
  shows "take (length buf) buf' = buf \<and> length buf' = length buf + n \<and>
    Decode (drop (length buf) buf' @ rest) = Inr (td_norm v, n)"
proof -
  from assms(1) have "encodable v" and "buf' = buf @ td_bytes v" and "n = length (td_bytes v)"
    by (auto simp: Encode_spec split: if_splits)
  with assms(2) show ?thesis by (simp add: Decode_td_bytes)
qed

theorem Encode_Decode_roundtrip_witness:
  "Decode ([8, 2, 104, 105] @ [9, 9]) = Inr (VString [104, 105], 4)"
proof -
  have "Encode (VString [104, 105]) [1] = Inr ([1, 8, 2, 104, 105], 4)"
    by (simp add: put_fresh_def PutUvarint_def put_scratch_def MaxLen_def td_type_defs)
  from Encode_Decode_roundtrip [OF this, of "[9, 9]"] show ?thesis
    by (simp add: td_sized_def td_norm_def)
qed

text \<open>C7. \<open>Encode\<close> fails on exactly two kinds of value, a \<open>net.IP\<close> that is neither 4 nor 16
  bytes long and a value of a type it does not know, and reports which.\<close>

theorem Encode_failures:
  "(\<exists>e. Encode v buf = Inl e) \<longleftrightarrow>
     (\<exists>ip. v = VIP ip \<and> length ip \<notin> {4, 16} \<and> Encode v buf = Inl (ErrInvalidIP (length ip))) \<or>
     (\<exists>t. v = VOther t \<and> Encode v buf = Inl (EncodeUnsupported t))"
  by (cases v) (auto simp: Encode_spec encodable_def simp del: Encode.simps)

text \<open>C8. A successful \<open>Decode\<close> stays inside the buffer, consumes at least the type byte, and
  its result depends on the consumed bytes alone; a failed one reports a type the protocol
  does not define, a truncated length, or a body longer than what is left.\<close>

theorem Decode_bounds:
  "case Decode buf of
     Inr (v, n) \<Rightarrow> 0 < n \<and> n \<le> length buf \<and> (\<forall>rest. Decode (take n buf @ rest) = Inr (v, n))
   | Inl (n, e) \<Rightarrow> n \<le> length buf \<and>
       (e = ErrEmptyBuffer \<and> buf = [] \<or> e = ErrTruncatedVarint \<or> e = ErrDecodingBufferTooSmall \<or>
        (\<exists>t. e = DecodeUnsupported t \<and> 9 < t \<and> t = hd buf AND 0x0F))"
proof (cases "Decode buf")
  case (Inr r)
  then show ?thesis
    using td.dec_progress td.dec_local by (cases r) auto
next
  case (Inl r)
  show ?thesis
  proof (cases buf)
    case (Cons h t)
    with Inl failing_body_of [of h] show ?thesis
      by (cases r) (auto simp: Decode_Cons failing_body_def)
  qed (use Inl in auto)
qed

end
