(* ===== verification/KV.thy ===== *)
theory KV
  imports TypedData
begin

text \<open>
  Package \<open>payload/kv\<close> (\<open>src/payload/kv/kv.go\<close>): the list of named values a frame or a
  message carries, its wire format in both directions, and the pool its objects come from.
  A \<open>KV\<close> has the item slice and the scratch buffer \<open>tmp\<close> that \<open>Bytes\<close> writes varints into;
  the methods return the updated object. \<open>Unmarshal\<close> and \<open>UnmarshalNB\<close> keep the items read
  before an error, as the source does.
\<close>

section \<open>Items, objects and errors\<close>

record Item =
  item_Name :: gostring
  item_Value :: go_value

record KV =
  kv_m :: "Item list"
  kv_tmp :: bytes

datatype kv_error =
    KVTruncatedKeyLen
  | KVWrongBufLen u64 nat
  | KVBufferEnd
  | KVValue td_error

definition NewKV :: KV where
  "NewKV = \<lparr>kv_m = [], kv_tmp = replicate MaxLen 0\<rparr>"

definition KV_Data :: "KV \<Rightarrow> Item list" where
  "KV_Data kv = kv_m kv"

definition KV_Reset :: "KV \<Rightarrow> KV" where
  "KV_Reset kv = kv\<lparr>kv_m := []\<rparr>"

definition KV_Add :: "gostring \<Rightarrow> go_value \<Rightarrow> KV \<Rightarrow> KV" where
  "KV_Add key value kv = kv\<lparr>kv_m := kv_m kv @ [\<lparr>item_Name = key, item_Value = value\<rparr>]\<rparr>"

fun kv_get_loop :: "gostring \<Rightarrow> Item list \<Rightarrow> go_value \<times> bool" where
  "kv_get_loop key [] = (VNil, False)"
| "kv_get_loop key (i # is) =
     (if item_Name i = key then (item_Value i, True) else kv_get_loop key is)"

definition KV_Get :: "KV \<Rightarrow> gostring \<Rightarrow> go_value \<times> bool" where
  "KV_Get kv key = kv_get_loop key (kv_m kv)"

section \<open>Bytes\<close>

text \<open>The loop of \<open>Bytes\<close>: \<open>tmp\<close> is the scratch buffer, \<open>buf\<close> the bytes so far. Slicing
  \<open>tmp\<close> at a negative width would panic; the invariant \<open>kv_ok\<close> rules it out.\<close>

fun kv_bytes_loop :: "bytes \<Rightarrow> bytes \<Rightarrow> Item list \<Rightarrow> (td_error + bytes) \<times> bytes" where
  "kv_bytes_loop tmp buf [] = (Inr buf, tmp)"
| "kv_bytes_loop tmp buf (item # items) =
     (let (tmp, n) = PutUvarint tmp (word_of_nat (length (item_Name item)));
          buf = buf @ take (nat n) tmp;
          buf = buf @ item_Name item
      in case Encode (item_Value item) [] of
           Inl err \<Rightarrow> (Inl err, tmp)
         | Inr (data, n) \<Rightarrow> kv_bytes_loop tmp (buf @ take n data) items)"

definition KV_Bytes :: "KV \<Rightarrow> (td_error + bytes) \<times> KV" where
  "KV_Bytes kv =
     (let (r, tmp) = kv_bytes_loop (kv_tmp kv) [] (kv_m kv) in (r, kv\<lparr>kv_tmp := tmp\<rparr>))"

section \<open>Unmarshal\<close>

function kv_unmarshal_loop :: "Item list \<Rightarrow> bytes \<Rightarrow> Item list \<times> kv_error option" where
  "kv_unmarshal_loop m buf =
     (if buf = [] then (m, None)
      else case Uvarint buf of (keyLen, n) \<Rightarrow>
        if n < 0 then (m, Some KVTruncatedKeyLen)
        else let buf1 = drop (nat n) buf in
          if length buf1 < unat keyLen then (m, Some (KVWrongBufLen keyLen (length buf1)))
          else let key = take (unat keyLen) buf1; buf2 = drop (unat keyLen) buf1 in
            case Decode buf2 of
              Inl (_, err) \<Rightarrow> (m, Some (KVValue err))
            | Inr (value, k) \<Rightarrow>
                kv_unmarshal_loop (m @ [\<lparr>item_Name = key, item_Value = value\<rparr>]) (drop k buf2))"
  by pat_completeness auto
termination
  by (relation "measure (\<lambda>(m, buf). length buf)") (auto dest!: uv.get_bounds [OF sym])

declare kv_unmarshal_loop.simps [simp del]

definition KV_Unmarshal :: "KV \<Rightarrow> bytes \<Rightarrow> KV \<times> kv_error option" where
  "KV_Unmarshal kv buf =
     (let (m, err) = kv_unmarshal_loop (kv_m kv) buf in (kv\<lparr>kv_m := m\<rparr>, err))"

fun kv_unmarshal_nb_loop ::
  "nat \<Rightarrow> Item list \<Rightarrow> bytes \<Rightarrow> nat \<Rightarrow> Item list \<times> nat \<times> kv_error option" where
  "kv_unmarshal_nb_loop 0 m buf readBytes = (m, readBytes, None)"
| "kv_unmarshal_nb_loop (Suc count) m buf readBytes =
     (if buf = [] then (m, readBytes, Some KVBufferEnd)
      else case Uvarint buf of (keyLen, n) \<Rightarrow>
        if n < 0 then (m, readBytes, Some KVTruncatedKeyLen)
        else let buf1 = drop (nat n) buf; readBytes = readBytes + nat n in
          if length buf1 < unat keyLen
          then (m, readBytes, Some (KVWrongBufLen keyLen (length buf1)))
          else let key = take (unat keyLen) buf1; buf2 = drop (unat keyLen) buf1;
                   readBytes = readBytes + unat keyLen in
            case Decode buf2 of
              Inl (_, err) \<Rightarrow> (m, readBytes, Some (KVValue err))
            | Inr (value, k) \<Rightarrow>
                kv_unmarshal_nb_loop count (m @ [\<lparr>item_Name = key, item_Value = value\<rparr>])
                  (drop k buf2) (readBytes + k))"

definition KV_UnmarshalNB :: "KV \<Rightarrow> bytes \<Rightarrow> int \<Rightarrow> KV \<times> nat \<times> kv_error option" where
  "KV_UnmarshalNB kv buf count =
     (let (m, readBytes, err) = kv_unmarshal_nb_loop (nat count) (kv_m kv) buf 0
      in (kv\<lparr>kv_m := m\<rparr>, readBytes, err))"

section \<open>The pool\<close>

text \<open>\<open>kv_out\<close> counts the objects acquired and not yet released; the code keeps no such
  count, it states that every acquire has one release.\<close>

record kv_pools =
  picks :: "nat \<Rightarrow> nat option"
  kvPool :: "KV list"
  kv_out :: int

definition next_pick :: "'x kv_pools_scheme \<Rightarrow> nat option \<times> 'x kv_pools_scheme" where
  "next_pick ps = (picks ps 0, ps\<lparr>picks := (\<lambda>i. picks ps (Suc i))\<rparr>)"

definition AcquireKV :: "'x kv_pools_scheme \<Rightarrow> KV \<times> 'x kv_pools_scheme" where
  "AcquireKV ps =
     (let (c, ps) = next_pick ps; ps = ps\<lparr>kv_out := kv_out ps + 1\<rparr> in
      case pool_take (kvPool ps) c of
        Some (kv, rest) \<Rightarrow> (kv, ps\<lparr>kvPool := rest\<rparr>)
      | None \<Rightarrow> (NewKV, ps))"

definition ReleaseKV :: "KV \<Rightarrow> 'x kv_pools_scheme \<Rightarrow> 'x kv_pools_scheme" where
  "ReleaseKV kv ps = ps\<lparr>kvPool := KV_Reset kv # kvPool ps, kv_out := kv_out ps - 1\<rparr>"

section \<open>One item on the wire\<close>

definition kv_prefix_error :: "prefixed_error \<Rightarrow> kv_error" where
  "kv_prefix_error e =
     (case e of PrefixTruncated \<Rightarrow> KVTruncatedKeyLen | PrefixTooLong l r \<Rightarrow> KVWrongBufLen l r)"

definition kv_read_item :: "bytes \<Rightarrow> kv_error + Item \<times> nat" where
  "kv_read_item buf =
     (if buf = [] then Inl KVBufferEnd
      else seq_read (map_read kv_prefix_error id read_prefixed)
        (\<lambda>key. map_read (\<lambda>(n, err). KVValue err)
            (\<lambda>value. \<lparr>item_Name = key, item_Value = value\<rparr>) Decode) buf)"

definition item_bytes :: "Item \<Rightarrow> bytes" where
  "item_bytes i = put_prefixed (item_Name i) @ td_bytes (item_Value i)"

definition item_ok :: "Item \<Rightarrow> bool" where
  "item_ok i \<longleftrightarrow> go_sized (item_Name i) \<and> encodable (item_Value i) \<and> td_sized (item_Value i)"

definition item_norm :: "Item \<Rightarrow> Item" where
  "item_norm i = i\<lparr>item_Value := td_norm (item_Value i)\<rparr>"

lemma Uvarint_prefixed:
  "read_prefixed buf =
     (case Uvarint buf of (len, n) \<Rightarrow>
        if n < 0 then Inl PrefixTruncated
        else if length (drop (nat n) buf) < unat len then Inl (PrefixTooLong len (length (drop (nat n) buf)))
        else Inr (take (unat len) (drop (nat n) buf), nat n + unat len))"
  by (simp add: read_prefixed_def Let_def split: prod.splits)

lemma reads_local_item:
  "reads_local (seq_read (map_read kv_prefix_error id read_prefixed)
     (\<lambda>key. map_read (\<lambda>(n, err). KVValue err)
        (\<lambda>value. \<lparr>item_Name = key, item_Value = value\<rparr>) Decode))"
  by (intro reads_local_seq reads_local_map prefixed.reads_local td.reads_local)

interpretation kv_item: item_codec kv_read_item item_bytes item_ok item_norm
proof
  show pos: "0 < n \<and> n \<le> length b" if "kv_read_item b = Inr (x, n)" for b x n
  proof -
    from that have r: "seq_read (map_read kv_prefix_error id read_prefixed)
        (\<lambda>key. map_read (\<lambda>(n, err). KVValue err)
            (\<lambda>value. \<lparr>item_Name = key, item_Value = value\<rparr>) Decode) b = Inr (x, n)"
      by (simp add: kv_read_item_def split: if_splits)
    from seq_read_fst [OF r] obtain key k where "read_prefixed b = Inr (key, k)" and "k \<le> n"
      by (cases "read_prefixed b") (auto simp: map_read_def)
    with prefixed.dec_progress reads_localD [OF reads_local_item r] show ?thesis by fastforce
  qed
  show "kv_read_item (take n b @ rest) = Inr (x, n)" if "kv_read_item b = Inr (x, n)" for b x n rest
    using that pos [OF that] reads_localD [OF reads_local_item, of b x n rest]
    by (auto simp: kv_read_item_def split: if_splits)
  show "kv_read_item (item_bytes x @ rest) = Inr (item_norm x, length (item_bytes x))"
    if ok: "item_ok x" for x rest
  proof -
    from ok have "put_prefixed (item_Name x) \<noteq> []"
      by (intro prefixed.enc_nonempty) (simp add: item_ok_def)
    with ok show ?thesis
      by (simp add: kv_read_item_def item_bytes_def item_ok_def item_norm_def seq_read_def
          map_read_def prefixed.dec_enc td.dec_enc)
  qed
qed

lemma kv_unmarshal_loop_eq:
  "kv_unmarshal_loop m buf =
     (if buf = [] then (m, None)
      else case kv_read_item buf of Inl e \<Rightarrow> (m, Some e)
        | Inr (i, n) \<Rightarrow> kv_unmarshal_loop (m @ [i]) (drop n buf))"
  by (subst kv_unmarshal_loop.simps)
     (auto simp: kv_read_item_def seq_read_def map_read_def Uvarint_prefixed kv_prefix_error_def
        Let_def add.commute add.left_commute split: prod.splits sum.splits)

interpretation kv_list: list_codec kv_read_item kv_unmarshal_loop item_bytes item_ok item_norm
  by unfold_locales (subst kv_unmarshal_loop_eq, simp)+

lemma kv_unmarshal_nb_loop_eq:
  "kv_unmarshal_nb_loop (Suc k) m buf r =
     (case kv_read_item buf of
        Inl e \<Rightarrow> (m, fst (snd (kv_unmarshal_nb_loop (Suc k) m buf r)), Some e)
      | Inr (i, n) \<Rightarrow> kv_unmarshal_nb_loop k (m @ [i]) (drop n buf) (r + n))"
  by (auto simp: kv_read_item_def seq_read_def map_read_def Uvarint_prefixed kv_prefix_error_def
        Let_def add.commute add.left_commute split: prod.splits sum.splits)

lemma kv_unmarshal_nb_fail_count:
  "kv_read_item buf = Inl e \<Longrightarrow>
   r \<le> fst (snd (kv_unmarshal_nb_loop (Suc k) m buf r)) \<and>
   fst (snd (kv_unmarshal_nb_loop (Suc k) m buf r)) \<le> r + length buf"
  by (auto simp: kv_read_item_def seq_read_def map_read_def Uvarint_prefixed kv_prefix_error_def
        Let_def add.commute [of "nat _"] split: prod.splits sum.splits if_splits
        dest!: uv.get_bounds)

interpretation kv_count: counted_codec kv_read_item kv_unmarshal_nb_loop item_bytes item_ok item_norm
proof unfold_locales
  show "\<exists>r'. r \<le> r' \<and> r' \<le> r + length b \<and> kv_unmarshal_nb_loop (Suc k) acc b r = (acc, r', Some e)"
    if "kv_read_item b = Inl e" for b e r k acc
    using kv_unmarshal_nb_fail_count [OF that] by (subst kv_unmarshal_nb_loop_eq) (auto simp: that)
  show "kv_unmarshal_nb_loop (Suc k) acc b r = kv_unmarshal_nb_loop k (acc @ [x]) (drop n b) (r + n)"
    if "kv_read_item b = Inr (x, n)" for b x n k acc r
    by (subst kv_unmarshal_nb_loop_eq) (simp add: that)
qed simp

section \<open>Bytes writes the items one after the other\<close>

definition kv_ok :: "KV \<Rightarrow> bool" where
  "kv_ok kv \<longleftrightarrow> length (kv_tmp kv) = MaxLen"

definition kv_clean :: "KV \<Rightarrow> bool" where
  "kv_clean kv \<longleftrightarrow> kv_m kv = [] \<and> kv_ok kv"

lemma kv_bytes_loop_eq:
  "length tmp = MaxLen \<Longrightarrow>
   length (snd (kv_bytes_loop tmp buf items)) = MaxLen \<and>
   fst (kv_bytes_loop tmp buf items) =
     (case find (\<lambda>i. \<not> encodable (item_Value i)) items of
        None \<Rightarrow> Inr (buf @ concat (map item_bytes items))
      | Some i \<Rightarrow> map_sum id fst (Encode (item_Value i) []))"
proof (induction items arbitrary: tmp buf)
  case (Cons i items)
  let ?n = "word_of_nat (length (item_Name i)) :: u64"
  have "length (put_scratch ?n) \<le> length tmp"
    using Cons.prems length_put_scratch(2) [of ?n] by simp
  with Cons show ?case
    by (auto simp: PutUvarint_fits Encode_spec item_bytes_def put_prefixed_def Let_def
        split: option.split)
qed simp

lemma KV_Bytes_spec:
  assumes "kv_ok kv"
  shows "fst (KV_Bytes kv) =
     (case find (\<lambda>i. \<not> encodable (item_Value i)) (kv_m kv) of
        None \<Rightarrow> Inr (concat (map item_bytes (kv_m kv)))
      | Some i \<Rightarrow> map_sum id fst (Encode (item_Value i) []))" (is ?eq)
    and "kv_ok (snd (KV_Bytes kv))" and "kv_m (snd (KV_Bytes kv)) = kv_m kv"
proof -
  from assms have l: "length (kv_tmp kv) = MaxLen" by (simp add: kv_ok_def)
  show ?eq and "kv_ok (snd (KV_Bytes kv))" and "kv_m (snd (KV_Bytes kv)) = kv_m kv"
    using kv_bytes_loop_eq [OF l, of "[]" "kv_m kv"]
    by (auto simp: KV_Bytes_def kv_ok_def split: prod.splits option.split)
qed

lemma find_None_all: "\<forall>x \<in> set xs. \<not> P x \<Longrightarrow> find P xs = None"
  by (simp add: find_None_iff)

lemma KV_Bytes_ok:
  assumes "kv_ok kv" and "\<forall>i \<in> set (kv_m kv). encodable (item_Value i)"
  shows "fst (KV_Bytes kv) = Inr (concat (map item_bytes (kv_m kv)))"
  using KV_Bytes_spec(1) [OF assms(1)] assms(2) by (simp add: find_None_all)

section \<open>Lookup\<close>

lemma kv_get_append:
  "kv_get_loop k (xs @ ys) = (if snd (kv_get_loop k xs) then kv_get_loop k xs else kv_get_loop k ys)"
  by (induction xs) auto

lemma kv_get_found: "snd (kv_get_loop k xs) \<longleftrightarrow> k \<in> set (map item_Name xs)"
  by (induction xs) auto

lemma KV_Get_Add [go_simps]:
  "KV_Get (KV_Add key value kv) k =
     (if snd (KV_Get kv k) then KV_Get kv k
      else if k = key then (value, True) else (VNil, False))"
  by (auto simp: KV_Get_def KV_Add_def kv_get_append)

lemma KV_Get_New [go_simps]: "kv_clean kv \<Longrightarrow> KV_Get kv k = (VNil, False)"
  by (simp add: KV_Get_def kv_clean_def)

lemma kv_ok_simps [go_simps]:
  "kv_ok NewKV" "kv_clean NewKV" "kv_ok (KV_Add k v kv) = kv_ok kv" "kv_ok (KV_Reset kv) = kv_ok kv"
  "kv_clean (KV_Reset kv) = kv_ok kv" "kv_ok (fst (KV_Unmarshal kv buf)) = kv_ok kv"
  "kv_ok (fst (KV_UnmarshalNB kv buf c)) = kv_ok kv" "kv_clean kv \<Longrightarrow> kv_ok kv"
  by (auto simp: kv_ok_def kv_clean_def NewKV_def KV_Add_def KV_Reset_def KV_Unmarshal_def
      KV_UnmarshalNB_def split: prod.splits)

section \<open>The pool keeps clean objects\<close>

definition kv_pool_ok :: "'x kv_pools_scheme \<Rightarrow> bool" where
  "kv_pool_ok ps \<longleftrightarrow> (\<forall>kv \<in> set (kvPool ps). kv_clean kv)"

interpretation kv_pool: reset_pool kv_pool_ok AcquireKV ReleaseKV kv_clean kv_ok
proof
  show "kv_clean x \<and> kv_pool_ok s'" if "kv_pool_ok s" "AcquireKV s = (x, s')" for s x s'
    using that
    by (auto simp: AcquireKV_def next_pick_def kv_pool_ok_def go_simps Let_def split: option.splits
        dest!: pool_take_Some)
  show "kv_pool_ok (ReleaseKV x s)" if "kv_pool_ok s" "kv_ok x" for s x
    using that by (simp add: ReleaseKV_def kv_pool_ok_def go_simps)
  show "kv_ok x" if "kv_clean x" for x using that by (simp add: go_simps)
qed

lemma kv_out_simps [go_simps]:
  "kv_out (snd (AcquireKV ps)) = kv_out ps + 1" "kv_out (ReleaseKV kv ps) = kv_out ps - 1"
  by (auto simp: AcquireKV_def ReleaseKV_def next_pick_def Let_def split: option.splits)

section \<open>Properties\<close>

text \<open>C9. Unmarshalling what \<open>Bytes\<close> produced appends the same items, in the same order and in
  their wire normal form, and \<open>Bytes\<close> changes nothing of the object but its scratch buffer.\<close>

theorem KV_Bytes_Unmarshal:
  assumes "KV_Bytes kv = (Inr buf, kv')" and "kv_ok kv"
    and "\<forall>i \<in> set (kv_m kv). go_sized (item_Name i) \<and> td_sized (item_Value i)"
  shows "KV_Unmarshal dest buf = (dest\<lparr>kv_m := kv_m dest @ map item_norm (kv_m kv)\<rparr>, None) \<and>
    kv_m kv' = kv_m kv \<and> kv_ok kv'"
proof -
  from assms(1) KV_Bytes_spec(1) [OF assms(2)]
  have none: "find (\<lambda>i. \<not> encodable (item_Value i)) (kv_m kv) = None"
    by (auto split: option.splits simp: Encode_spec find_Some_iff)
  with assms(1) KV_Bytes_spec(1) [OF assms(2)]
  have buf: "buf = concat (map item_bytes (kv_m kv))" by simp
  from none assms(3) have "\<forall>i \<in> set (kv_m kv). item_ok i"
    by (auto simp: find_None_iff item_ok_def)
  from kv_list.loop_concat [OF this, of "kv_m dest"] buf
    KV_Bytes_spec(2,3) [OF assms(2)] assms(1)
  show ?thesis by (simp add: KV_Unmarshal_def)
qed

theorem KV_Bytes_Unmarshal_witness:
  "KV_Unmarshal NewKV [1, 107, 17] =
     (NewKV\<lparr>kv_m := [\<lparr>item_Name = [107], item_Value = VBool True\<rparr>]\<rparr>, None)"
proof -
  let ?kv = "KV_Add [107] (VBool True) NewKV"
  obtain kv' where "KV_Bytes ?kv = (Inr [1, 107, 17], kv')"
    by (simp add: KV_Bytes_def KV_Add_def NewKV_def MaxLen_def PutUvarint_def put_scratch_def)
  from KV_Bytes_Unmarshal [OF this, of NewKV] show ?thesis
    by (simp add: KV_Add_def NewKV_def kv_ok_def td_sized_def item_norm_def td_norm_def)
qed

text \<open>C10. \<open>Unmarshal\<close> returns on every buffer, and what it returns is determined by the wire grammar
  alone. It returns nil exactly when the buffer is a sequence of well-formed items, and has then
  appended them. It returns an error exactly when a sequence of well-formed items is followed by
  bytes that do not start with one: the error is the one of these bytes, and the items before
  them have been appended and stay. Nothing else of the object changes.\<close>

theorem KV_Unmarshal_exact:
  "(KV_Unmarshal kv buf = (kv', None) \<longleftrightarrow>
      (\<exists>xs. parses kv_read_item buf xs \<and> kv' = kv\<lparr>kv_m := kv_m kv @ xs\<rparr>)) \<and>
   (KV_Unmarshal kv buf = (kv', Some e) \<longleftrightarrow>
      (\<exists>good rest xs. buf = good @ rest \<and> parses kv_read_item good xs \<and> rest \<noteq> [] \<and>
         kv_read_item rest = Inl e \<and> kv' = kv\<lparr>kv_m := kv_m kv @ xs\<rparr>))"
proof -
  have "KV_Unmarshal kv buf = (kv', r) \<longleftrightarrow>
      (\<exists>m. kv_unmarshal_loop (kv_m kv) buf = (m, r) \<and> kv' = kv\<lparr>kv_m := m\<rparr>)" for r
    by (auto simp: KV_Unmarshal_def split: prod.splits)
  then show ?thesis by (auto simp: kv_list.loop_ok_iff kv_list.loop_fail_iff)
qed

text \<open>C11. \<open>UnmarshalNB\<close> that succeeds has read exactly the requested number of items from the
  first \<open>readBytes\<close> bytes and would read the same whatever followed them; the count it reports
  never exceeds the buffer, even with an error.\<close>

theorem KV_UnmarshalNB_exact:
  assumes "KV_UnmarshalNB kv buf count = (kv', n, e)"
  shows "n \<le> length buf \<and>
    (e = None \<longrightarrow> length (kv_m kv') = length (kv_m kv) + nat count \<and>
       (\<forall>rest. KV_UnmarshalNB kv (take n buf @ rest) count = (kv', n, None)))"
proof -
  obtain m where m: "kv_unmarshal_nb_loop (nat count) (kv_m kv) buf 0 = (m, n, e)"
    and kv': "kv' = kv\<lparr>kv_m := m\<rparr>"
    using assms by (auto simp: KV_UnmarshalNB_def split: prod.splits)
  show ?thesis
    using kv_count.loopn_bounds [OF m] m kv' kv_count.loopn_ok [of "nat count" "kv_m kv" buf 0 m n]
    by (auto simp: KV_UnmarshalNB_def)
qed

theorem KV_UnmarshalNB_exact_witness:
  "KV_UnmarshalNB NewKV ([1, 107, 17] @ [42]) 1 =
     (NewKV\<lparr>kv_m := [\<lparr>item_Name = [107], item_Value = VBool True\<rparr>]\<rparr>, 3, None)"
proof -
  have "KV_UnmarshalNB NewKV [1, 107, 17] 1 =
      (NewKV\<lparr>kv_m := [\<lparr>item_Name = [107], item_Value = VBool True\<rparr>]\<rparr>, 3, None)"
    by (simp add: KV_UnmarshalNB_def NewKV_def Decode.simps td_type_defs Let_def)
  from KV_UnmarshalNB_exact [OF this] show ?thesis by simp
qed

text \<open>A lookup returns the first item with the key: an item added later is seen only if no
  earlier one has its name, and a key that was never added is reported as absent.\<close>

theorem KV_Get_first:
  "KV_Get (KV_Add key value kv) k =
     (if snd (KV_Get kv k) then KV_Get kv k
      else if k = key then (value, True) else (VNil, False)) \<and>
   (snd (KV_Get kv k) \<longleftrightarrow> k \<in> set (map item_Name (KV_Data kv)))"
  by (rule conjI, rule KV_Get_Add) (simp add: KV_Get_def KV_Data_def kv_get_found)

end
