(* ===== verification/Message.thy ===== *)
theory Message
  imports KV
begin

text \<open>
  Package \<open>message\<close> (\<open>src/message\<close>): the messages of a NOTIFY frame, their decoder, and the
  pool they come from. A \<open>*Messages\<close> is the list of its messages; a method returns the
  updated list. The decoder acquires a message from the pool for every entry and releases it
  on an error, so it threads the pools' state.
\<close>

section \<open>Messages and their pool\<close>

record Message =
  msg_Name :: gostring
  msg_KV :: KV

record msg_pools = kv_pools +
  messagePool :: "Message list"
  msg_out :: int

definition newMessage :: "'x kv_pools_scheme \<Rightarrow> Message \<times> 'x kv_pools_scheme" where
  "newMessage ps = (let (kv, ps) = AcquireKV ps in (\<lparr>msg_Name = [], msg_KV = kv\<rparr>, ps))"

text \<open>The pool's \<open>New\<close> never returns nil, so the nil check of \<open>AcquireMessage\<close> never fires.\<close>

definition AcquireMessage :: "'x msg_pools_scheme \<Rightarrow> Message \<times> 'x msg_pools_scheme" where
  "AcquireMessage ps =
     (let (c, ps) = next_pick ps; ps = ps\<lparr>msg_out := msg_out ps + 1\<rparr> in
      case pool_take (messagePool ps) c of
        Some (m, rest) \<Rightarrow> (m, ps\<lparr>messagePool := rest\<rparr>)
      | None \<Rightarrow> newMessage ps)"

definition Message_Reset :: "Message \<Rightarrow> 'x kv_pools_scheme \<Rightarrow> Message \<times> 'x kv_pools_scheme" where
  "Message_Reset m ps =
     (let m = m\<lparr>msg_Name := []\<rparr>;
          ps = ReleaseKV (msg_KV m) ps;
          (kv, ps) = AcquireKV ps
      in (m\<lparr>msg_KV := kv\<rparr>, ps))"

text \<open>\<open>ReleaseMessage\<close> returns the object too: the caller's pointer still reaches it.\<close>

definition ReleaseMessage :: "Message \<Rightarrow> 'x msg_pools_scheme \<Rightarrow> Message \<times> 'x msg_pools_scheme" where
  "ReleaseMessage m ps =
     (let (m, ps) = Message_Reset m ps
      in (m, ps\<lparr>messagePool := m # messagePool ps, msg_out := msg_out ps - 1\<rparr>))"

section \<open>The list of messages\<close>

datatype messages_error = ErrMessageNotFound

definition NewMessages :: "Message list" where
  "NewMessages = []"

definition Messages_Reset ::
  "Message list \<Rightarrow> 'x msg_pools_scheme \<Rightarrow> Message list \<times> 'x msg_pools_scheme" where
  "Messages_Reset m ps = ([], fold (\<lambda>mes ps. snd (ReleaseMessage mes ps)) m ps)"

fun Messages_GetByName :: "Message list \<Rightarrow> gostring \<Rightarrow> messages_error + Message" where
  "Messages_GetByName [] name = Inl ErrMessageNotFound"
| "Messages_GetByName (mes # m) name =
     (if msg_Name mes = name then Inr mes else Messages_GetByName m name)"

text \<open>A negative index passes the bound check and indexing the slice with it panics.\<close>

definition Messages_GetByIndex :: "Message list \<Rightarrow> int \<Rightarrow> (messages_error + Message) outcome" where
  "Messages_GetByIndex m idx =
     (if int (length m) \<le> idx then Ret (Inl ErrMessageNotFound)
      else if idx < 0 then Panic
      else Ret (Inr (m ! nat idx)))"

definition Messages_Len :: "Message list \<Rightarrow> nat" where
  "Messages_Len m = length m"

section \<open>Decode\<close>

datatype msg_error =
    MsgTruncatedNameLen
  | MsgNameTooLong u64 nat
  | MsgMissingNbArgs gostring
  | MsgArgs kv_error

text \<open>Line 32 reads the name of the message for its error text after releasing it.\<close>

function Messages_Decode ::
  "Message list \<Rightarrow> bytes \<Rightarrow> 'x msg_pools_scheme \<Rightarrow>
   Message list \<times> msg_error option \<times> 'x msg_pools_scheme" where
  "Messages_Decode m buf ps =
     (if buf = [] then (m, None, ps)
      else let (message, ps) = AcquireMessage ps in
      case Uvarint buf of (messageNameLen, n) \<Rightarrow>
        if n < 0 then (m, Some MsgTruncatedNameLen, snd (ReleaseMessage message ps))
        else let buf1 = drop (nat n) buf in
          if length buf1 < unat messageNameLen
          then (m, Some (MsgNameTooLong messageNameLen (length buf1)), snd (ReleaseMessage message ps))
          else let message = message\<lparr>msg_Name := take (unat messageNameLen) buf1\<rparr>;
                   buf2 = drop (unat messageNameLen) buf1 in
            if buf2 = []
            then (let (message, ps) = ReleaseMessage message ps
                  in (m, Some (MsgMissingNbArgs (msg_Name message)), ps))
            else let nbArgs = int (unat (hd buf2)); buf3 = tl buf2 in
              case KV_UnmarshalNB (msg_KV message) buf3 nbArgs of (kv, n, err) \<Rightarrow>
                let message = message\<lparr>msg_KV := kv\<rparr> in
                case err of
                  Some e \<Rightarrow> (m, Some (MsgArgs e), snd (ReleaseMessage message ps))
                | None \<Rightarrow> Messages_Decode (m @ [message]) (drop n buf3) ps)"
  by pat_completeness auto
termination
  by (relation "measure (\<lambda>(m, buf, ps). length buf)") (auto dest!: uv.get_bounds [OF sym])

declare Messages_Decode.simps [simp del]

section \<open>The pool keeps clean messages\<close>

definition message_ok :: "Message \<Rightarrow> bool" where
  "message_ok m \<longleftrightarrow> kv_ok (msg_KV m)"

definition message_clean :: "Message \<Rightarrow> bool" where
  "message_clean m \<longleftrightarrow> msg_Name m = [] \<and> kv_clean (msg_KV m)"

definition msg_pool_ok :: "'x msg_pools_scheme \<Rightarrow> bool" where
  "msg_pool_ok ps \<longleftrightarrow> kv_pool_ok ps \<and> (\<forall>m \<in> set (messagePool ps). message_clean m)"

lemma kv_pool_ok_update [go_simps]:
  "kv_pool_ok (ps\<lparr>messagePool := p\<rparr>) = kv_pool_ok (ps :: 'x msg_pools_scheme)"
  "kv_pool_ok (ps\<lparr>msg_out := i\<rparr>) = kv_pool_ok (ps :: 'x msg_pools_scheme)"
  "kv_pool_ok (snd (next_pick qs)) = kv_pool_ok qs"
  by (simp_all add: kv_pool_ok_def next_pick_def)

text \<open>The operations of the inner pool leave the outer one alone.\<close>

lemma messagePool_keep [keep_simps]:
  "messagePool (snd (AcquireKV ps)) = messagePool (ps :: 'x msg_pools_scheme)"
  "messagePool (ReleaseKV kv ps) = messagePool (ps :: 'x msg_pools_scheme)"
  "messagePool (snd (next_pick ps)) = messagePool (ps :: 'x msg_pools_scheme)"
  "msg_out (snd (AcquireKV ps)) = msg_out (ps :: 'x msg_pools_scheme)"
  "msg_out (ReleaseKV kv ps) = msg_out (ps :: 'x msg_pools_scheme)"
  "msg_out (snd (next_pick ps)) = msg_out (ps :: 'x msg_pools_scheme)"
  by (auto simp: AcquireKV_def ReleaseKV_def next_pick_def Let_def split: option.splits)

lemma newMessage_ok:
  "kv_pool_ok ps \<Longrightarrow> message_clean (fst (newMessage ps)) \<and> kv_pool_ok (snd (newMessage ps))"
  using kv_pool.acquire_ok [of ps]
  by (auto simp: newMessage_def message_clean_def split: prod.splits)

lemma Message_Reset_ok:
  "kv_pool_ok ps \<Longrightarrow> message_ok m \<Longrightarrow>
   message_clean (fst (Message_Reset m ps)) \<and> kv_pool_ok (snd (Message_Reset m ps))"
  using kv_pool.acquire_ok [OF kv_pool.release_ok, of ps "msg_KV m"]
  by (auto simp: Message_Reset_def message_clean_def message_ok_def Let_def split: prod.splits)

lemma messagePool_keep_msg [keep_simps]:
  "messagePool (snd (newMessage ps)) = messagePool (ps :: 'x msg_pools_scheme)"
  "messagePool (snd (Message_Reset m ps)) = messagePool (ps :: 'x msg_pools_scheme)"
  "msg_out (snd (newMessage ps)) = msg_out (ps :: 'x msg_pools_scheme)"
  "msg_out (snd (Message_Reset m ps)) = msg_out (ps :: 'x msg_pools_scheme)"
  by (auto simp: newMessage_def Message_Reset_def AcquireKV_def ReleaseKV_def next_pick_def Let_def
      split: option.splits)

lemma ReleaseMessage_ok:
  assumes "msg_pool_ok ps" and "message_ok m"
  shows "message_clean (fst (ReleaseMessage m ps)) \<and> msg_pool_ok (snd (ReleaseMessage m ps))"
  using assms Message_Reset_ok [of ps m] messagePool_keep_msg(2) [of m ps]
  by (auto simp: ReleaseMessage_def msg_pool_ok_def go_simps split: prod.splits)

lemma AcquireMessage_ok:
  assumes "msg_pool_ok ps" and "AcquireMessage ps = (m, ps')"
  shows "message_clean m \<and> msg_pool_ok ps'"
proof -
  obtain c qs where pick: "next_pick ps = (c, qs)" by fastforce
  let ?qs = "qs\<lparr>msg_out := msg_out qs + 1\<rparr>"
  have qs: "kv_pool_ok ?qs" "messagePool ?qs = messagePool ps"
    using assms(1) pick kv_pool_ok_update(3) [of ps] messagePool_keep(3) [of ps]
    by (simp_all add: msg_pool_ok_def go_simps)
  show ?thesis
  proof (cases "pool_take (messagePool ps) c")
    case None
    with assms(2) pick qs(2) have "newMessage ?qs = (m, ps')"
      by (simp add: AcquireMessage_def)
    with newMessage_ok [OF qs(1)] messagePool_keep_msg(1) [of ?qs] qs(2) assms(1)
    show ?thesis by (simp add: msg_pool_ok_def)
  next
    case (Some p)
    with assms pick qs pool_take_Some [of "messagePool ps" c] show ?thesis
      by (cases p) (fastforce simp: AcquireMessage_def msg_pool_ok_def go_simps)
  qed
qed

interpretation msg_pool: reset_pool msg_pool_ok AcquireMessage "\<lambda>m ps. snd (ReleaseMessage m ps)"
  message_clean message_ok
proof
  show "message_clean x \<and> msg_pool_ok s'" if "msg_pool_ok s" "AcquireMessage s = (x, s')" for s x s'
    using that by (rule AcquireMessage_ok)
  show "msg_pool_ok (snd (ReleaseMessage x s))" if "msg_pool_ok s" "message_ok x" for s x
    using ReleaseMessage_ok [OF that] by simp
  show "message_ok x" if "message_clean x" for x
    using that by (simp add: message_clean_def message_ok_def go_simps)
qed

lemma msg_out_simps [go_simps]:
  "msg_out (snd (AcquireMessage ps)) = msg_out ps + 1"
  "msg_out (snd (ReleaseMessage m ps)) = msg_out ps - 1"
  using messagePool_keep_msg(4) [of m ps]
  by (auto simp: AcquireMessage_def ReleaseMessage_def next_pick_def Let_def keep_simps
      case_prod_beta split: option.splits)

section \<open>One message on the wire\<close>

type_synonym msg_view = "gostring \<times> Item list"

definition message_view :: "Message \<Rightarrow> msg_view" where
  "message_view m = (msg_Name m, kv_m (msg_KV m))"

definition msg_prefix_error :: "prefixed_error \<Rightarrow> msg_error" where
  "msg_prefix_error e =
     (case e of PrefixTruncated \<Rightarrow> MsgTruncatedNameLen | PrefixTooLong l r \<Rightarrow> MsgNameTooLong l r)"

definition read_nb_args :: "bytes \<Rightarrow> msg_error + nat \<times> nat" where
  "read_nb_args b = (case b of [] \<Rightarrow> Inl (MsgMissingNbArgs []) | x # _ \<Rightarrow> Inr (unat x, 1))"

definition read_args :: "nat \<Rightarrow> bytes \<Rightarrow> msg_error + Item list \<times> nat" where
  "read_args k b =
     (case kv_unmarshal_nb_loop k [] b 0 of
        (m, n, None) \<Rightarrow> Inr (m, n) | (m, n, Some e) \<Rightarrow> Inl (MsgArgs e))"

definition msg_read :: "bytes \<Rightarrow> msg_error + msg_view \<times> nat" where
  "msg_read =
     seq_read (map_read msg_prefix_error id read_prefixed)
       (\<lambda>name. seq_read read_nb_args (\<lambda>k. map_read id (Pair name) (read_args k)))"

definition msg_bytes :: "msg_view \<Rightarrow> bytes" where
  "msg_bytes v =
     put_prefixed (fst v) @ word_of_nat (length (snd v)) # concat (map item_bytes (snd v))"

definition msg_ok :: "msg_view \<Rightarrow> bool" where
  "msg_ok v \<longleftrightarrow> go_sized (fst v) \<and> length (snd v) < 256 \<and> (\<forall>i \<in> set (snd v). item_ok i)"

definition msg_norm :: "msg_view \<Rightarrow> msg_view" where
  "msg_norm v = (fst v, map item_norm (snd v))"

lemma reads_local_args: "reads_local (read_args k)"
  unfolding reads_local_def read_args_def
  using kv_count.loopn_ok [of k "[]" _ 0] by (auto split: prod.splits option.splits)

lemma reads_local_nb: "reads_local read_nb_args"
  by (auto simp: reads_local_def read_nb_args_def split: list.splits)

lemma reads_local_msg: "reads_local msg_read"
  unfolding msg_read_def
  by (intro reads_local_seq reads_local_map prefixed.reads_local reads_local_nb reads_local_args)

interpretation msg_item: item_codec msg_read msg_bytes msg_ok msg_norm
proof
  show "0 < n \<and> n \<le> length b" if "msg_read b = Inr (x, n)" for b x n
  proof -
    from that [unfolded msg_read_def, THEN seq_read_fst] obtain key k
      where "read_prefixed b = Inr (key, k)" and "k \<le> n"
      by (cases "read_prefixed b") (auto simp: map_read_def)
    with prefixed.dec_progress reads_localD [OF reads_local_msg that] show ?thesis by fastforce
  qed
  show "msg_read (take n b @ rest) = Inr (x, n)" if "msg_read b = Inr (x, n)" for b x n rest
    using reads_localD [OF reads_local_msg that] by blast
  show "msg_read (msg_bytes x @ rest) = Inr (msg_norm x, length (msg_bytes x))" if "msg_ok x" for x rest
    using that
    by (simp add: msg_read_def msg_bytes_def msg_ok_def msg_norm_def seq_read_def map_read_def
        read_nb_args_def read_args_def prefixed.dec_enc kv_count.loopn_concat)
qed

lemma msg_read_missing: "msg_read b = Inl (MsgMissingNbArgs name) \<Longrightarrow> name = []"
  by (auto simp: msg_read_def seq_read_def map_read_def read_nb_args_def read_args_def
      msg_prefix_error_def map_sum_def split: sum.splits list.splits prod.splits option.splits
      prefixed_error.splits)

section \<open>Decode refines the reference loop\<close>

lemma Messages_Decode_item:
  assumes ok: "msg_pool_ok ps" and ne: "buf \<noteq> []"
  shows "case msg_read buf of
      Inl e \<Rightarrow> \<exists>ps'. Messages_Decode m buf ps = (m, Some e, ps') \<and> msg_pool_ok ps' \<and> msg_out ps' = msg_out ps
    | Inr (v, n) \<Rightarrow> \<exists>mes ps'. Messages_Decode m buf ps = Messages_Decode (m @ [mes]) (drop n buf) ps' \<and>
        message_view mes = v \<and> message_ok mes \<and> msg_pool_ok ps' \<and> msg_out ps' = msg_out ps + 1"
proof -
  obtain mes qs where acq: "AcquireMessage ps = (mes, qs)" by fastforce
  from AcquireMessage_ok [OF ok acq] have clean: "message_clean mes" and qs: "msg_pool_ok qs"
    by simp_all
  from clean have mes: "msg_Name mes = []" "kv_m (msg_KV mes) = []" "kv_ok (msg_KV mes)"
    by (simp_all add: message_clean_def kv_clean_def)
  have out: "msg_out qs = msg_out ps + 1"
    using msg_out_simps(1) [of ps] acq by simp
  have release: "msg_pool_ok (snd (ReleaseMessage x qs)) \<and> msg_out (snd (ReleaseMessage x qs)) = msg_out ps
      \<and> msg_Name (fst (ReleaseMessage x qs)) = []" if "message_ok x" for x
    using ReleaseMessage_ok [OF qs that] msg_out_simps(2) [of x qs] out by (simp add: message_clean_def)
  obtain len n where u: "Uvarint buf = (len, n)" by fastforce
  define buf2 where "buf2 = drop (unat len + nat n) buf"
  consider "n < 0" | "0 \<le> n" "length (drop (nat n) buf) < unat len"
    | "0 \<le> n" "unat len \<le> length (drop (nat n) buf)" "buf2 = []"
    | x b where "0 \<le> n" "unat len \<le> length (drop (nat n) buf)" "buf2 = x # b"
    by (metis list.exhaust not_less)
  then show ?thesis
  proof cases
    case 4
    define name where "name = take (unat len) (drop (nat n) buf)"
    obtain items k err where nb: "kv_unmarshal_nb_loop (unat x) [] b 0 = (items, k, err)"
      by (cases "kv_unmarshal_nb_loop (unat x) [] b 0") auto
    have this_drop: "drop (Suc (nat n + (unat len + k))) buf = drop k b"
      using 4(3) by (simp add: buf2_def drop_drop [symmetric] add.commute del: drop_drop)
        (metis drop_Suc_Cons drop_drop add.commute add.left_commute add_Suc)
    have "\<not> n < 0" and "\<not> length buf - nat n < unat len"
      and "drop (unat len + nat n) buf = x # b" and "drop (nat n + unat len) buf = x # b"
      using 4 by (simp_all add: buf2_def add.commute)
    note eqs = this u nb ne acq mes Messages_Decode.simps [of m buf ps] msg_read_def seq_read_def
      map_read_def Uvarint_prefixed read_nb_args_def read_args_def KV_UnmarshalNB_def name_def
      Let_def
    show ?thesis
    proof (cases err)
      case None
      let ?mes = "mes\<lparr>msg_Name := name, msg_KV := (msg_KV mes)\<lparr>kv_m := items\<rparr>\<rparr>"
      have "Messages_Decode m buf ps = Messages_Decode (m @ [?mes]) (drop k b) qs"
        using None by (simp add: eqs)
      moreover have "message_view ?mes = (name, items)" and "message_ok ?mes"
        using mes by (simp_all add: message_view_def message_ok_def kv_ok_def)
      moreover have "msg_read buf = Inr ((name, items), Suc (nat n + (unat len + k)))"
        using None by (simp add: eqs)
      ultimately show ?thesis using this_drop qs out by fastforce
    next
      case (Some e)
      then show ?thesis
        using release mes(3) by (simp add: eqs message_ok_def kv_ok_def)
    qed
  qed (use u ne acq mes qs out release in
        \<open>auto simp: Messages_Decode.simps [of m buf ps] msg_read_def seq_read_def map_read_def
          Uvarint_prefixed read_nb_args_def msg_prefix_error_def message_ok_def buf2_def
          add.commute Let_def case_prod_beta\<close>)
qed

text \<open>The whole loop: its messages are those of the reference loop, with the same error.\<close>

lemma Messages_Decode_refines:
  "msg_pool_ok ps \<Longrightarrow> Messages_Decode m buf ps = (ms, err, ps') \<Longrightarrow>
   read_all msg_read (map message_view m) buf = (map message_view ms, err) \<and>
   msg_pool_ok ps' \<and> msg_out ps' + int (length m) = msg_out ps + int (length ms) \<and>
   ((\<forall>x \<in> set m. message_ok x) \<longrightarrow> (\<forall>x \<in> set ms. message_ok x))"
proof (induction "length buf" arbitrary: m buf ps rule: less_induct)
  case less
  note step = Messages_Decode_item [OF less.prems(1), of buf m]
  show ?case
  proof (cases "buf = []")
    case True
    with less.prems show ?thesis
      by (simp add: Messages_Decode.simps msg_item.all.loop_Nil)
  next
    case False
    show ?thesis
    proof (cases "msg_read buf")
      case (Inl e)
      with step False less.prems show ?thesis by (auto simp: msg_item.all.loop_fail)
    next
      case (Inr p)
      then obtain v n where v: "msg_read buf = Inr (v, n)" by (cases p) auto
      with step False obtain mes qs where
        eq: "Messages_Decode m buf ps = Messages_Decode (m @ [mes]) (drop n buf) qs"
        and mes: "message_view mes = v" "message_ok mes"
        and qs: "msg_pool_ok qs" "msg_out qs = msg_out ps + 1"
        by auto
      from eq less.prems(2) have "Messages_Decode (m @ [mes]) (drop n buf) qs = (ms, err, ps')"
        by simp
      from less.hyps [OF msg_item.dec_shrinks [OF v] qs(1) this] mes qs(2) show ?thesis
        by (simp add: msg_item.all.loop_item [OF False v] algebra_simps)
    qed
  qed
qed

text \<open>Whatever acquiring and releasing messages leaves alone, decoding leaves alone.\<close>

lemma Messages_Decode_invariant:
  assumes acq: "\<And>ps. h (snd (AcquireMessage ps)) = h ps"
    and rel: "\<And>m ps. h (snd (ReleaseMessage m ps)) = h ps"
  shows "h (snd (snd (Messages_Decode m buf ps))) = h ps"
proof (induction "length buf" arbitrary: m buf ps rule: less_induct)
  case less
  obtain mes qs where a: "AcquireMessage ps = (mes, qs)" by fastforce
  obtain len n where u: "Uvarint buf = (len, n)" by fastforce
  let ?b2 = "drop (unat len) (drop (nat n) buf)"
  obtain kv k err where nb: "KV_UnmarshalNB (msg_KV mes) (tl ?b2) (int (unat (hd ?b2))) = (kv, k, err)"
    by (metis prod.exhaust)
  have qs: "h qs = h ps" using acq [of ps] a by simp
  let ?mes = "mes\<lparr>msg_Name := take (unat len) (drop (nat n) buf), msg_KV := kv\<rparr>"
  have IH: "h (snd (snd (Messages_Decode (m @ [?mes]) (drop k (tl ?b2)) qs))) = h ps"
    if "buf \<noteq> []" "0 \<le> n"
    using that uv.get_bounds [OF u] qs less.hyps [of "drop k (tl ?b2)" "m @ [?mes]" qs] by auto
  show ?case
    using a u nb IH rel qs
    by (cases err) (simp_all add: Messages_Decode.simps [of m buf ps] Let_def case_prod_beta)
qed

section \<open>Properties\<close>

text \<open>C12. Whatever objects the pool hands out, decoding the wire form of a list of messages
  yields exactly these messages, in order and with their arguments in order, and acquires
  one pooled message for each.\<close>

theorem Messages_Decode_complete:
  assumes "msg_pool_ok ps" and "\<forall>v \<in> set vs. msg_ok v"
  shows "\<exists>ms ps'. Messages_Decode [] (concat (map msg_bytes vs)) ps = (ms, None, ps') \<and>
    map message_view ms = map msg_norm vs \<and> msg_pool_ok ps' \<and> msg_out ps' = msg_out ps + int (length vs)"
proof -
  obtain ms err ps' where d: "Messages_Decode [] (concat (map msg_bytes vs)) ps = (ms, err, ps')"
    by (metis prod.exhaust)
  note r = Messages_Decode_refines [OF assms(1) d]
  from msg_item.parses_concat [OF assms(2)]
  have "read_all msg_read [] (concat (map msg_bytes vs)) = (map msg_norm vs, None)"
    by (simp add: msg_item.all.loop_parses)
  with r have "map message_view ms = map msg_norm vs" and "err = None" by simp_all
  then have "length ms = length vs" by (metis length_map)
  with d r \<open>map message_view ms = map msg_norm vs\<close> \<open>err = None\<close> show ?thesis by simp
qed

definition empty_pools :: msg_pools where
  "empty_pools = \<lparr>picks = (\<lambda>_. None), kvPool = [], kv_out = 0, messagePool = [], msg_out = 0\<rparr>"

theorem Messages_Decode_complete_witness:
  "\<exists>ms ps'. Messages_Decode [] [2, 105, 112, 1, 1, 107, 17] empty_pools = (ms, None, ps') \<and>
     map message_view ms = [([105, 112], [\<lparr>item_Name = [107], item_Value = VBool True\<rparr>])] \<and>
     msg_out ps' = 1"
proof -
  let ?v = "([105, 112], [\<lparr>item_Name = [107], item_Value = VBool True\<rparr>]) :: msg_view"
  have ok: "\<forall>v \<in> set [?v]. msg_ok v"
    by (simp add: msg_ok_def item_ok_def encodable_def td_sized_def)
  have pool: "msg_pool_ok empty_pools"
    by (simp add: msg_pool_ok_def kv_pool_ok_def empty_pools_def)
  have "concat (map msg_bytes [?v]) = [2, 105, 112, 1, 1, 107, 17]"
    by (simp add: msg_bytes_def item_bytes_def put_prefixed_def put_scratch_def td_bytes_def)
  with Messages_Decode_complete [OF pool ok] show ?thesis
    by (auto simp: msg_norm_def item_norm_def td_norm_def empty_pools_def)
qed

text \<open>C13. On every buffer \<open>Decode\<close> returns, and whether it fails is decided by the wire grammar
  alone. It returns nil exactly when the buffer is a sequence of well-formed messages, and has
  then appended these; otherwise a sequence of well-formed messages is followed by bytes that do
  not start with one, the error is the one of these bytes, and exactly the messages before them
  have been appended. Every pooled message it acquired is in the list or has been released, and
  the pool holds only clean messages. The error for a missing NB-ARGS byte never names the
  message: its name is read after the message has been reset.\<close>

theorem Messages_Decode_exact:
  assumes "msg_pool_ok ps" and "Messages_Decode m buf ps = (ms, err, ps')"
  shows "(err = None \<longleftrightarrow> (\<exists>vs. parses msg_read buf vs)) \<and>
    (\<forall>vs. parses msg_read buf vs \<longrightarrow> map message_view ms = map message_view m @ vs) \<and>
    (\<forall>e. err = Some e \<longrightarrow>
       (\<exists>good rest vs. buf = good @ rest \<and> parses msg_read good vs \<and> rest \<noteq> [] \<and> msg_read rest = Inl e \<and>
          map message_view ms = map message_view m @ vs)) \<and>
    msg_pool_ok ps' \<and> msg_out ps' - msg_out ps = int (length ms) - int (length m) \<and>
    (\<forall>name. err = Some (MsgMissingNbArgs name) \<longrightarrow> name = [])"
proof -
  note r = Messages_Decode_refines [OF assms]
  have ok: "err = None \<and> map message_view ms = map message_view m @ vs" if "parses msg_read buf vs" for vs
    using msg_item.all.loop_parses [OF that, of "map message_view m"] r by simp
  have ex: "\<exists>vs. parses msg_read buf vs" if "err = None"
    using msg_item.all.loop_ok_iff [of "map message_view m" buf "map message_view ms"] r that by auto
  have stop: "\<exists>good rest vs. buf = good @ rest \<and> parses msg_read good vs \<and> rest \<noteq> [] \<and> msg_read rest = Inl e \<and>
      map message_view ms = map message_view m @ vs" if "err = Some e" for e
    using msg_item.all.loop_stops [of "map message_view m" buf "map message_view ms" e] r that by simp
  moreover have "name = []" if "err = Some (MsgMissingNbArgs name)" for name
    using stop [OF that] by (auto dest: msg_read_missing)
  ultimately show ?thesis using ok ex r by (auto simp: algebra_simps)
qed

theorem Messages_Decode_exact_witness:
  "\<exists>ps'. Messages_Decode [] [2, 105, 112] empty_pools = ([], Some (MsgMissingNbArgs []), ps') \<and>
     msg_pool_ok ps' \<and> msg_out ps' = 0"
proof -
  obtain ps' where d: "Messages_Decode [] [2, 105, 112] empty_pools = ([], Some (MsgMissingNbArgs []), ps')"
    by (simp add: Messages_Decode.simps AcquireMessage_def newMessage_def AcquireKV_def next_pick_def
        empty_pools_def ReleaseMessage_def Message_Reset_def ReleaseKV_def Let_def)
  have pool: "msg_pool_ok empty_pools"
    by (simp add: msg_pool_ok_def kv_pool_ok_def empty_pools_def)
  from Messages_Decode_exact [OF pool d] d show ?thesis by (simp add: empty_pools_def)
qed

text \<open>C14. The lookups find what was decoded. After decoding the wire form of a list of messages,
  \<open>GetByName\<close> returns the first message sent under the name, with its arguments, and the not-found
  error exactly when none was sent under it; \<open>GetByIndex\<close> returns the message sent at that position
  and the not-found error from the number of messages on.\<close>

theorem Messages_Decode_lookup:
  assumes "msg_pool_ok ps" and "\<forall>v \<in> set vs. msg_ok v"
    and "Messages_Decode [] (concat (map msg_bytes vs)) ps = (ms, err, ps')"
  shows "map_sum id message_view (Messages_GetByName ms name) =
      (case find (\<lambda>v. fst v = name) vs of None \<Rightarrow> Inl ErrMessageNotFound | Some v \<Rightarrow> Inr (msg_norm v)) \<and>
    Messages_Len ms = length vs \<and>
    (\<forall>i < length vs. \<exists>x. Messages_GetByIndex ms (int i) = Ret (Inr x) \<and> message_view x = msg_norm (vs ! i)) \<and>
    (\<forall>i \<ge> length vs. Messages_GetByIndex ms (int i) = Ret (Inl ErrMessageNotFound))"
proof -
  have v: "map message_view ms = map msg_norm vs"
    using Messages_Decode_refines [OF assms(1,3)] msg_item.parses_concat [OF assms(2)]
    by (simp add: msg_item.all.loop_parses)
  then have len: "length ms = length vs" by (metis length_map)
  have nth: "message_view (ms ! i) = msg_norm (vs ! i)" if "i < length vs" for i
    using v that len by (metis nth_map)
  have "map_sum id message_view (Messages_GetByName ms name) =
      (case find (\<lambda>v. fst v = name) vs of None \<Rightarrow> Inl ErrMessageNotFound | Some v \<Rightarrow> Inr (msg_norm v))"
    using len v
  proof (induction ms vs rule: list_induct2)
    case (Cons x ms v vs)
    then have "msg_Name x = fst v" by (simp add: message_view_def msg_norm_def)
    with Cons show ?case by simp
  qed simp
  with nth len show ?thesis by (simp add: Messages_GetByIndex_def Messages_Len_def)
qed

theorem Messages_Decode_lookup_witness:
  "\<exists>ms err ps'. Messages_Decode [] [2, 105, 112, 1, 1, 107, 17] empty_pools = (ms, err, ps') \<and>
     map_sum id message_view (Messages_GetByName ms [105, 112]) =
       Inr ([105, 112], [\<lparr>item_Name = [107], item_Value = VBool True\<rparr>]) \<and>
     Messages_GetByIndex ms 1 = Ret (Inl ErrMessageNotFound)"
proof -
  let ?v = "([105, 112], [\<lparr>item_Name = [107], item_Value = VBool True\<rparr>]) :: msg_view"
  have ok: "\<forall>v \<in> set [?v]. msg_ok v"
    by (simp add: msg_ok_def item_ok_def encodable_def td_sized_def)
  have pool: "msg_pool_ok empty_pools"
    by (simp add: msg_pool_ok_def kv_pool_ok_def empty_pools_def)
  have w: "concat (map msg_bytes [?v]) = [2, 105, 112, 1, 1, 107, 17]"
    by (simp add: msg_bytes_def item_bytes_def put_prefixed_def put_scratch_def td_bytes_def)
  obtain ms err ps' where d: "Messages_Decode [] (concat (map msg_bytes [?v])) empty_pools = (ms, err, ps')"
    by (metis prod.exhaust)
  from Messages_Decode_lookup [OF pool ok d, of "[105, 112]"] have
    "map_sum id message_view (Messages_GetByName ms [105, 112]) = Inr ?v"
    "\<forall>i \<ge> Suc 0. Messages_GetByIndex ms (int i) = Ret (Inl ErrMessageNotFound)"
    by (simp_all add: msg_norm_def item_norm_def td_norm_def)
  moreover from this(2) have "Messages_GetByIndex ms 1 = Ret (Inl ErrMessageNotFound)"
    by (metis int_ops(2) order_refl One_nat_def)
  ultimately show ?thesis using d unfolding w by blast
qed

end
