(* ===== verification/Action.thy ===== *)
theory Action
  imports KV
begin

text \<open>
  Package \<open>action\<close> (\<open>src/action\<close>): the actions an agent answers a NOTIFY with, and their
  LIST-OF-ACTIONS encoding in both directions. \<open>Type\<close> and \<open>Scope\<close> are bytes in the source,
  so an action can carry any byte in either; a nil \<open>Actions\<close> slice and an empty one behave
  alike and are both the empty list.
\<close>

section \<open>Actions\<close>

definition nbVarsSetVar :: byte where "nbVarsSetVar = 3"
definition nbVarsUnsetVar :: byte where "nbVarsUnsetVar = 2"
definition TypeSetVar :: byte where "TypeSetVar = 1"
definition TypeUnsetVar :: byte where "TypeUnsetVar = 2"
definition ScopeProcess :: byte where "ScopeProcess = 0"
definition ScopeSession :: byte where "ScopeSession = 1"
definition ScopeTransaction :: byte where "ScopeTransaction = 2"
definition ScopeRequest :: byte where "ScopeRequest = 3"
definition ScopeResponse :: byte where "ScopeResponse = 4"

lemmas action_consts = nbVarsSetVar_def nbVarsUnsetVar_def TypeSetVar_def TypeUnsetVar_def
  ScopeProcess_def ScopeSession_def ScopeTransaction_def ScopeRequest_def ScopeResponse_def

record Action =
  act_Type :: byte
  act_Scope :: byte
  act_Name :: gostring
  act_Value :: go_value

definition NewSetVar :: "byte \<Rightarrow> gostring \<Rightarrow> go_value \<Rightarrow> Action" where
  "NewSetVar scope name value =
     \<lparr>act_Type = TypeSetVar, act_Scope = scope, act_Name = name, act_Value = value\<rparr>"

definition NewUnsetVar :: "byte \<Rightarrow> gostring \<Rightarrow> Action" where
  "NewUnsetVar scope name =
     \<lparr>act_Type = TypeUnsetVar, act_Scope = scope, act_Name = name, act_Value = VNil\<rparr>"

definition Actions_SetVar :: "byte \<Rightarrow> gostring \<Rightarrow> go_value \<Rightarrow> Action list \<Rightarrow> Action list" where
  "Actions_SetVar scope name value actions = actions @ [NewSetVar scope name value]"

definition Actions_UnsetVar :: "byte \<Rightarrow> gostring \<Rightarrow> Action list \<Rightarrow> Action list" where
  "Actions_UnsetVar scope name actions = actions @ [NewUnsetVar scope name]"

definition Actions_Reset :: "Action list \<Rightarrow> Action list" where
  "Actions_Reset actions = []"

section \<open>Marshal\<close>

datatype action_error =
    UnexpectedActionType byte
  | ActionValue td_error

definition Action_Marshal :: "Action \<Rightarrow> bytes \<Rightarrow> action_error + bytes" where
  "Action_Marshal action buf =
     (if act_Type action \<noteq> TypeSetVar \<and> act_Type action \<noteq> TypeUnsetVar
      then Inl (UnexpectedActionType (act_Type action))
      else
        let nb = (if act_Type action = TypeSetVar then nbVarsSetVar else nbVarsUnsetVar);
            buf = buf @ [act_Type action];
            buf = buf @ [nb];
            buf = buf @ [act_Scope action];
            (b, n) = put_fresh (word_of_nat (length (act_Name action)));
            buf = buf @ b;
            buf = buf @ act_Name action
        in if act_Type action = TypeUnsetVar then Inr buf
           else case Encode (act_Value action) [] of
                  Inl err \<Rightarrow> Inl (ActionValue err)
                | Inr (valueBuf, n) \<Rightarrow> Inr (buf @ take n valueBuf))"

section \<open>Unmarshal\<close>

datatype unmarshal_error =
    UnknownActionType byte
  | MissingNbArgs
  | WrongNbArgs byte byte byte
  | MissingScope
  | UnknownScope byte
  | TruncatedVarName
  | VarNameTooLong u64 nat
  | VarValue td_error

text \<open>The loop of \<open>Unmarshal\<close>; on an error the source returns a nil list.\<close>

function unmarshal_loop :: "Action list \<Rightarrow> bytes \<Rightarrow> unmarshal_error + Action list" where
  "unmarshal_loop actions buf =
     (case buf of [] \<Rightarrow> Inr actions
      | ty # buf1 \<Rightarrow>
          if ty \<noteq> TypeSetVar \<and> ty \<noteq> TypeUnsetVar then Inl (UnknownActionType ty)
          else let wantArgs = (if ty = TypeSetVar then nbVarsSetVar else nbVarsUnsetVar) in
          (case buf1 of [] \<Rightarrow> Inl MissingNbArgs
           | nb # buf2 \<Rightarrow>
               if nb \<noteq> wantArgs then Inl (WrongNbArgs ty wantArgs nb)
               else (case buf2 of [] \<Rightarrow> Inl MissingScope
                | scope # buf3 \<Rightarrow>
                    if scope \<notin> {ScopeProcess, ScopeSession, ScopeTransaction, ScopeRequest, ScopeResponse}
                    then Inl (UnknownScope scope)
                    else case Uvarint buf3 of (nameLen, n) \<Rightarrow>
                      if n < 0 then Inl TruncatedVarName
                      else let buf4 = drop (nat n) buf3 in
                        if length buf4 < unat nameLen then Inl (VarNameTooLong nameLen (length buf4))
                        else let name = take (unat nameLen) buf4; buf5 = drop (unat nameLen) buf4;
                                 action = \<lparr>act_Type = ty, act_Scope = scope, act_Name = name, act_Value = VNil\<rparr> in
                          if ty = TypeUnsetVar then unmarshal_loop (actions @ [action]) buf5
                          else case Decode buf5 of
                                 Inl (_, err) \<Rightarrow> Inl (VarValue err)
                               | Inr (value, k) \<Rightarrow>
                                   unmarshal_loop (actions @ [action\<lparr>act_Value := value\<rparr>]) (drop k buf5))))"
  by pat_completeness auto
termination
  by (relation "measure (\<lambda>(actions, buf). length buf)") auto

declare unmarshal_loop.simps [simp del]

definition Unmarshal :: "bytes \<Rightarrow> unmarshal_error + Action list" where
  "Unmarshal buf = unmarshal_loop [] buf"

section \<open>One action on the wire\<close>

definition read_header :: "bytes \<Rightarrow> unmarshal_error + (byte \<times> byte) \<times> nat" where
  "read_header b =
     (case b of [] \<Rightarrow> Inl (UnknownActionType 0)
      | ty # b1 \<Rightarrow>
          if ty \<noteq> TypeSetVar \<and> ty \<noteq> TypeUnsetVar then Inl (UnknownActionType ty)
          else let wantArgs = (if ty = TypeSetVar then nbVarsSetVar else nbVarsUnsetVar) in
          (case b1 of [] \<Rightarrow> Inl MissingNbArgs
           | nb # b2 \<Rightarrow>
               if nb \<noteq> wantArgs then Inl (WrongNbArgs ty wantArgs nb)
               else (case b2 of [] \<Rightarrow> Inl MissingScope
                | scope # b3 \<Rightarrow>
                    if scope \<notin> {ScopeProcess, ScopeSession, ScopeTransaction, ScopeRequest, ScopeResponse}
                    then Inl (UnknownScope scope) else Inr ((ty, scope), 3))))"

definition name_error :: "prefixed_error \<Rightarrow> unmarshal_error" where
  "name_error e =
     (case e of PrefixTruncated \<Rightarrow> TruncatedVarName | PrefixTooLong l r \<Rightarrow> VarNameTooLong l r)"

definition read_value :: "byte \<Rightarrow> byte \<Rightarrow> gostring \<Rightarrow> bytes \<Rightarrow> unmarshal_error + Action \<times> nat" where
  "read_value ty scope name =
     (let action = \<lparr>act_Type = ty, act_Scope = scope, act_Name = name, act_Value = VNil\<rparr> in
      if ty = TypeUnsetVar then (\<lambda>b. Inr (action, 0))
      else map_read (\<lambda>(n, err). VarValue err) (\<lambda>value. action\<lparr>act_Value := value\<rparr>) Decode)"

definition act_read :: "bytes \<Rightarrow> unmarshal_error + Action \<times> nat" where
  "act_read =
     seq_read read_header (\<lambda>(ty, scope).
       seq_read (map_read name_error id read_prefixed) (\<lambda>name. read_value ty scope name))"

definition act_bytes :: "Action \<Rightarrow> bytes" where
  "act_bytes a =
     [act_Type a, if act_Type a = TypeSetVar then nbVarsSetVar else nbVarsUnsetVar, act_Scope a] @
     put_prefixed (act_Name a) @
     (if act_Type a = TypeUnsetVar then [] else td_bytes (act_Value a))"

definition act_encodable :: "Action \<Rightarrow> bool" where
  "act_encodable a \<longleftrightarrow>
     act_Type a = TypeUnsetVar \<or> act_Type a = TypeSetVar \<and> encodable (act_Value a)"

definition act_valid :: "Action \<Rightarrow> bool" where
  "act_valid a \<longleftrightarrow> act_encodable a \<and> unat (act_Scope a) \<le> 4 \<and> go_sized (act_Name a) \<and>
     td_sized (act_Value a)"

definition act_norm :: "Action \<Rightarrow> Action" where
  "act_norm a =
     a\<lparr>act_Value := (if act_Type a = TypeUnsetVar then VNil else td_norm (act_Value a))\<rparr>"

lemma scope_known:
  "scope \<in> {ScopeProcess, ScopeSession, ScopeTransaction, ScopeRequest, ScopeResponse} \<longleftrightarrow>
   unat scope \<le> 4"
proof -
  have eq: "scope = word_of_nat k \<longleftrightarrow> unat scope = k" if "k < 256" for k
    using that by (metis byte_of_nat_eqI unat_word_of_nat_byte)
  show ?thesis
    using eq [of 0] eq [of 1] eq [of 2] eq [of 3] eq [of 4] by (auto simp: action_consts)
qed

lemma reads_local_header: "reads_local read_header"
  unfolding reads_local_def read_header_def Let_def
  by (auto split: list.splits if_splits)

lemma reads_local_value: "reads_local (read_value ty scope name)"
proof (cases "ty = TypeUnsetVar")
  case True
  then show ?thesis by (simp add: read_value_def reads_local_def)
next
  case False
  then show ?thesis by (simp add: read_value_def reads_local_map td.reads_local)
qed

lemma reads_local_act: "reads_local act_read"
  unfolding act_read_def
  by (intro reads_local_seq reads_local_header)
     (auto intro!: reads_local_seq reads_local_map prefixed.reads_local reads_local_value)

lemma read_header_width: "read_header b = Inr (h, n) \<Longrightarrow> n = 3"
  by (auto simp: read_header_def Let_def split: list.splits if_splits)

interpretation act_item: item_codec act_read act_bytes act_valid act_norm
proof
  show "0 < n \<and> n \<le> length b" if "act_read b = Inr (x, n)" for b x n
    using that [unfolded act_read_def, THEN seq_read_fst] reads_localD [OF reads_local_act that]
    by (auto dest: read_header_width)
  show "act_read (take n b @ rest) = Inr (x, n)" if "act_read b = Inr (x, n)" for b x n rest
    using reads_localD [OF reads_local_act that] by blast
  show "act_read (act_bytes x @ rest) = Inr (act_norm x, length (act_bytes x))"
    if "act_valid x" for x rest
  proof -
    have "read_header (act_bytes x @ rest) = Inr ((act_Type x, act_Scope x), 3)"
      using that scope_known [of "act_Scope x"]
      by (auto simp: read_header_def act_bytes_def act_valid_def act_encodable_def action_consts)
    moreover have "drop 3 (act_bytes x @ rest) = put_prefixed (act_Name x) @
        (if act_Type x = TypeUnsetVar then [] else td_bytes (act_Value x)) @ rest"
      by (simp add: act_bytes_def)
    ultimately show ?thesis
      using that
      by (auto simp: act_read_def seq_read_def map_read_def read_value_def prefixed.dec_enc
          td.dec_enc act_valid_def act_encodable_def act_norm_def act_bytes_def action_consts)
  qed
qed

section \<open>Unmarshal reads actions one after the other\<close>

lemma read_header_Inr:
  "read_header b = Inr ((ty, scope), n) \<Longrightarrow>
   \<exists>rest. b = ty # (if ty = TypeSetVar then nbVarsSetVar else nbVarsUnsetVar) # scope # rest \<and> n = 3 \<and>
     (ty = TypeSetVar \<or> ty = TypeUnsetVar) \<and> unat scope \<le> 4"
  unfolding scope_known [symmetric]
  by (auto simp: read_header_def Let_def split: list.splits if_splits)

lemma unmarshal_loop_header_fail:
  "buf \<noteq> [] \<Longrightarrow> read_header buf = Inl e \<Longrightarrow> unmarshal_loop acts buf = Inl e"
  by (subst unmarshal_loop.simps) (auto simp: read_header_def Let_def split: list.splits if_splits)

lemma unmarshal_loop_header:
  assumes "ty = TypeSetVar \<or> ty = TypeUnsetVar" and "unat scope \<le> 4"
  shows "unmarshal_loop acts (ty # (if ty = TypeSetVar then nbVarsSetVar else nbVarsUnsetVar) # scope # rest) =
    (case read_prefixed rest of Inl e \<Rightarrow> Inl (name_error e)
     | Inr (name, k) \<Rightarrow>
         (case read_value ty scope name (drop k rest) of Inl e \<Rightarrow> Inl e
          | Inr (a, j) \<Rightarrow> unmarshal_loop (acts @ [a]) (drop (k + j) rest)))"
proof -
  obtain len n where u: "Uvarint rest = (len, n)" by fastforce
  show ?thesis
    using assms u scope_known [of scope]
    by (subst unmarshal_loop.simps)
       (auto simp: Uvarint_prefixed name_error_def read_value_def map_read_def Let_def add.commute
          split: sum.splits)
qed

lemma unmarshal_loop_step:
  assumes "buf \<noteq> []"
  shows "unmarshal_loop acts buf =
     (case act_read buf of Inl e \<Rightarrow> Inl e
      | Inr (a, n) \<Rightarrow> unmarshal_loop (acts @ [a]) (drop n buf))"
proof (cases "read_header buf")
  case (Inl e)
  with assms show ?thesis by (simp add: unmarshal_loop_header_fail act_read_def seq_read_def)
next
  case (Inr r)
  obtain ty scope n where r: "r = ((ty, scope), n)" by (metis prod.exhaust)
  with read_header_Inr [of buf ty scope n] Inr obtain rest where
    "buf = ty # (if ty = TypeSetVar then nbVarsSetVar else nbVarsUnsetVar) # scope # rest"
    "n = 3" "ty = TypeSetVar \<or> ty = TypeUnsetVar" "unat scope \<le> 4"
    by auto
  with Inr r unmarshal_loop_header [of ty scope acts rest] show ?thesis
    by (auto simp: act_read_def seq_read_def map_read_def eval_nat_numeral
        split: sum.splits)
qed

lemma unmarshal_loop_eq:
  "unmarshal_loop acts buf =
     (case read_all act_read acts buf of (xs, None) \<Rightarrow> Inr xs | (xs, Some e) \<Rightarrow> Inl e)"
proof (induction acts buf rule: act_item.all.loop_induct)
  case (Nil acts)
  show ?case by (simp add: unmarshal_loop.simps act_item.all.loop_Nil)
next
  case (Fail acts buf e)
  then show ?case by (simp add: unmarshal_loop_step act_item.all.loop_fail)
next
  case (Item acts buf x n)
  then show ?case by (simp add: unmarshal_loop_step act_item.all.loop_item)
qed

lemma Unmarshal_ok_iff: "Unmarshal buf = Inr xs \<longleftrightarrow> parses act_read buf xs"
  using act_item.all.loop_ok_iff [of "[]" buf xs]
  by (auto simp: Unmarshal_def unmarshal_loop_eq split: prod.splits option.splits)

lemma read_value_fields:
  "read_value ty scope name b = Inr (a, n) \<Longrightarrow> act_Type a = ty \<and> act_Scope a = scope"
  by (auto simp: read_value_def map_read_def map_sum_def Let_def split: sum.splits if_splits)

lemma act_read_known:
  "act_read b = Inr (a, n) \<Longrightarrow> act_Type a \<in> {TypeSetVar, TypeUnsetVar} \<and> unat (act_Scope a) \<le> 4"
  by (auto simp: act_read_def seq_read_def split: sum.splits dest!: read_header_Inr read_value_fields)

lemma Action_Marshal_spec:
  "Action_Marshal a buf =
     (if act_encodable a then Inr (buf @ act_bytes a)
      else if act_Type a = TypeSetVar then map_sum ActionValue id (map_sum id fst (Encode (act_Value a) []))
      else Inl (UnexpectedActionType (act_Type a)))"
  by (auto simp: Action_Marshal_def act_encodable_def act_bytes_def put_fresh_eq put_prefixed_def
      Encode_spec action_consts)

fun marshal_all :: "Action list \<Rightarrow> bytes \<Rightarrow> action_error + bytes" where
  "marshal_all [] payload = Inr payload"
| "marshal_all (act # acts) payload =
     (case Action_Marshal act payload of Inl err \<Rightarrow> Inl err | Inr payload \<Rightarrow> marshal_all acts payload)"

lemma marshal_all_ok_iff:
  "marshal_all acts payload = Inr out \<longleftrightarrow>
     (\<forall>a \<in> set acts. act_encodable a) \<and> out = payload @ concat (map act_bytes acts)"
  by (induction acts arbitrary: payload)
     (auto simp: Action_Marshal_spec Encode_spec act_encodable_def split: sum.splits)

text \<open>Marshal writes any scope, Unmarshal refuses a scope it does not know: what comes back from the
  bytes of a list of actions.\<close>

lemma act_read_unknown_scope:
  assumes "act_encodable a" and "4 < unat (act_Scope a)"
  shows "act_read (act_bytes a @ rest) = Inl (UnknownScope (act_Scope a))"
proof -
  have "read_header (act_bytes a @ rest) = Inl (UnknownScope (act_Scope a))"
    using assms scope_known [of "act_Scope a"]
    by (auto simp: read_header_def act_bytes_def act_encodable_def action_consts)
  then show ?thesis by (simp add: act_read_def seq_read_def)
qed

lemma Unmarshal_act_bytes:
  assumes "\<forall>a \<in> set acts. act_encodable a \<and> go_sized (act_Name a) \<and> td_sized (act_Value a)"
  shows "Unmarshal (concat (map act_bytes acts)) =
    (case find (\<lambda>a. 4 < unat (act_Scope a)) acts of
       None \<Rightarrow> Inr (map act_norm acts)
     | Some a \<Rightarrow> Inl (UnknownScope (act_Scope a)))"
proof (cases "find (\<lambda>a. 4 < unat (act_Scope a)) acts")
  case None
  with assms have "\<forall>a \<in> set acts. act_valid a" by (auto simp: find_None_iff act_valid_def)
  with None act_item.parses_concat show ?thesis by (simp add: Unmarshal_ok_iff)
next
  case (Some a)
  then obtain k where k: "k < length acts" "a = acts ! k" "4 < unat (act_Scope a)"
    "\<forall>j < k. \<not> 4 < unat (act_Scope (acts ! j))"
    by (auto simp: find_Some_iff)
  then have split: "acts = take k acts @ a # drop (Suc k) acts" by (metis id_take_nth_drop)
  have "act_valid x" if "x \<in> set (take k acts)" for x
  proof -
    from that obtain j where "j < k" "x = acts ! j" by (auto simp: in_set_conv_nth)
    with k assms that show ?thesis by (auto simp: act_valid_def not_less dest: in_set_takeD)
  qed
  then have good: "parses act_read (concat (map act_bytes (take k acts))) (map act_norm (take k acts))"
    by (intro act_item.parses_concat) blast
  have "act_encodable a" using assms k(1,2) nth_mem by blast
  note bad = act_read_unknown_scope [OF this k(3), of "concat (map act_bytes (drop (Suc k) acts))"]
  have "concat (map act_bytes acts) = concat (map act_bytes (take k acts)) @
      (act_bytes a @ concat (map act_bytes (drop (Suc k) acts)))"
    by (subst split) simp
  moreover have "act_bytes a @ concat (map act_bytes (drop (Suc k) acts)) \<noteq> []" by (simp add: act_bytes_def)
  ultimately show ?thesis
    using Some bad by (simp add: Unmarshal_def unmarshal_loop_eq act_item.all.loop_prefix [OF good]
        act_item.all.loop_fail del: append_is_Nil_conv)
qed

section \<open>Properties\<close>

text \<open>C15. What comes back from the bytes of a list of actions, marshalled one after the other (names
  and values of a size a Go slice can have). When every scope is one of the five the protocol
  defines, unmarshalling gives the list back in order, with values in their wire normal form and no
  value on an UNSET-VAR. Marshal also writes an action with any other scope; Unmarshal then refuses
  the bytes, and its error names the scope of the first such action.\<close>

theorem Marshal_Unmarshal_roundtrip:
  assumes "marshal_all acts [] = Inr buf"
    and "\<forall>a \<in> set acts. go_sized (act_Name a) \<and> td_sized (act_Value a)"
  shows "Unmarshal buf =
    (case find (\<lambda>a. 4 < unat (act_Scope a)) acts of
       None \<Rightarrow> Inr (map act_norm acts)
     | Some a \<Rightarrow> Inl (UnknownScope (act_Scope a)))"
  using Unmarshal_act_bytes [of acts] assms by (simp add: marshal_all_ok_iff)

theorem Marshal_Unmarshal_roundtrip_witness:
  "Unmarshal [1, 3, 1, 2, 105, 112, 17, 2, 2, 0, 1, 120] =
     Inr [NewSetVar ScopeSession [105, 112] (VBool True), NewUnsetVar ScopeProcess [120]]"
proof -
  let ?acts = "[NewSetVar ScopeSession [105, 112] (VBool True), NewUnsetVar ScopeProcess [120]]"
  have m: "marshal_all ?acts [] = Inr [1, 3, 1, 2, 105, 112, 17, 2, 2, 0, 1, 120]"
    by (simp add: Action_Marshal_def NewSetVar_def NewUnsetVar_def action_consts put_fresh_def
        PutUvarint_def put_scratch_def MaxLen_def)
  have ok: "\<forall>a \<in> set ?acts. go_sized (act_Name a) \<and> td_sized (act_Value a)"
    by (simp add: NewSetVar_def NewUnsetVar_def action_consts td_sized_def)
  from Marshal_Unmarshal_roundtrip [OF m ok] show ?thesis
    by (simp add: NewSetVar_def NewUnsetVar_def act_norm_def td_norm_def action_consts)
qed

text \<open>C16. \<open>Unmarshal\<close> returns on every buffer. It succeeds exactly on a sequence of
  well-formed actions, and every action it returns has a known type and a known scope.\<close>

theorem Unmarshal_exact:
  "(Unmarshal buf = Inr acts \<longleftrightarrow> parses act_read buf acts) \<and>
   (Unmarshal buf = Inr acts \<longrightarrow>
      list_all (\<lambda>a. act_Type a \<in> {TypeSetVar, TypeUnsetVar} \<and> unat (act_Scope a) \<le> 4) acts)"
proof -
  have "parses act_read buf acts \<Longrightarrow>
      list_all (\<lambda>a. act_Type a \<in> {TypeSetVar, TypeUnsetVar} \<and> unat (act_Scope a) \<le> 4) acts"
    by (induction rule: parses.induct) (use act_read_known in auto)
  then show ?thesis by (simp add: Unmarshal_ok_iff)
qed

theorem Unmarshal_exact_witness:
  "list_all (\<lambda>a. act_Type a \<in> {TypeSetVar, TypeUnsetVar} \<and> unat (act_Scope a) \<le> 4)
     [NewUnsetVar ScopeResponse [120]]"
proof -
  have "Unmarshal [2, 2, 4, 1, 120] = Inr [NewUnsetVar ScopeResponse [120]]"
    by (simp add: Unmarshal_def unmarshal_loop.simps NewUnsetVar_def action_consts)
  with Unmarshal_exact show ?thesis by blast
qed

end
