(* ===== verification/Frame.thy ===== *)
theory Frame
  imports Message Action
begin

text \<open>
  Package \<open>frame\<close>, its data: the frame object with its scratch buffers, the pool it comes
  from, and the constants of the protocol (\<open>src/frame/frame.go\<close>). A FRAME-TYPE is a byte, so a
  frame can carry any. The encoder and the decoder are in \<open>Frame_Codec\<close>.
\<close>

section \<open>Constants\<close>

definition flagFin :: u32 where "flagFin = 1"
definition flagAbort :: u32 where "flagAbort = 2"

definition MaxFrameSize :: u32 where "MaxFrameSize = push_bit 20 1"
definition minFrameLen :: u32 where "minFrameLen = 5"
definition frameLengthPrefix :: nat where "frameLengthPrefix = 4"

definition TypeUnset :: byte where "TypeUnset = 0x00"
definition TypeHAProxyHello :: byte where "TypeHAProxyHello = 0x01"
definition TypeHAProxyDisconnect :: byte where "TypeHAProxyDisconnect = 0x02"
definition TypeNotify :: byte where "TypeNotify = 0x03"
definition TypeAgentHello :: byte where "TypeAgentHello = 0x65"
definition TypeAgentDisconnect :: byte where "TypeAgentDisconnect = 0x66"
definition TypeAgentAck :: byte where "TypeAgentAck = 0x67"

definition FromHAProxy :: "byte list" where
  "FromHAProxy = [TypeHAProxyHello, TypeHAProxyDisconnect, TypeNotify]"

definition FromAgent :: "byte list" where
  "FromAgent = [TypeAgentHello, TypeAgentDisconnect, TypeAgentAck]"

lemmas frame_type_defs = TypeUnset_def TypeHAProxyHello_def TypeHAProxyDisconnect_def TypeNotify_def
  TypeAgentHello_def TypeAgentDisconnect_def TypeAgentAck_def

lemma MaxFrameSize_val: "MaxFrameSize = 1048576"
  by (simp add: MaxFrameSize_def)

section \<open>Frames and their pool\<close>

record Frame =
  f_Len :: u32
  f_Type :: byte
  f_Flags :: u32
  f_EngineID :: gostring
  f_StreamID :: u64
  f_FrameID :: u64
  f_Healthcheck :: bool
  f_MaxFrameSize :: u32
  f_KV :: KV
  f_Messages :: "Message list"
  f_Actions :: "Action list"
  f_tmp :: bytes
  f_varintBuf :: bytes

record frame_pools = msg_pools +
  framePool :: "Frame list"
  frame_out :: int

definition NewFrame :: "'x kv_pools_scheme \<Rightarrow> Frame \<times> 'x kv_pools_scheme" where
  "NewFrame ps =
     (let (kv, ps) = AcquireKV ps in
      (\<lparr>f_Len = 0, f_Type = 0, f_Flags = flagFin, f_EngineID = [], f_StreamID = 0, f_FrameID = 0,
        f_Healthcheck = False, f_MaxFrameSize = 0, f_KV = kv, f_Messages = NewMessages,
        f_Actions = [], f_tmp = replicate 5 0, f_varintBuf = replicate 10 0\<rparr>, ps))"

definition Frame_Reset :: "Frame \<Rightarrow> 'x msg_pools_scheme \<Rightarrow> Frame \<times> 'x msg_pools_scheme" where
  "Frame_Reset f ps =
     (let f = f\<lparr>f_Len := 0, f_Type := 0, f_Flags := flagFin, f_EngineID := [], f_StreamID := 0,
                f_FrameID := 0, f_Healthcheck := False, f_MaxFrameSize := 0\<rparr>;
          f = f\<lparr>f_Actions := []\<rparr>;
          (ms, ps) = Messages_Reset (f_Messages f) ps;
          f = f\<lparr>f_Messages := ms\<rparr>
      in (f\<lparr>f_KV := KV_Reset (f_KV f)\<rparr>, ps))"

definition AcquireFrame :: "'x frame_pools_scheme \<Rightarrow> Frame \<times> 'x frame_pools_scheme" where
  "AcquireFrame ps =
     (let (c, ps) = next_pick ps; ps = ps\<lparr>frame_out := frame_out ps + 1\<rparr> in
      case pool_take (framePool ps) c of
        Some (f, rest) \<Rightarrow> (f, ps\<lparr>framePool := rest\<rparr>)
      | None \<Rightarrow> NewFrame ps)"

definition ReleaseFrame :: "Frame \<Rightarrow> 'x frame_pools_scheme \<Rightarrow> 'x frame_pools_scheme" where
  "ReleaseFrame f ps =
     (let (f, ps) = Frame_Reset f ps
      in ps\<lparr>framePool := f # framePool ps, frame_out := frame_out ps - 1\<rparr>)"

definition IsFin :: "Frame \<Rightarrow> bool" where
  "IsFin f \<longleftrightarrow> f_Flags f AND flagFin > 0"

definition IsAbort :: "Frame \<Rightarrow> bool" where
  "IsAbort f \<longleftrightarrow> f_Flags f AND flagAbort > 0"

section \<open>The pool keeps clean frames\<close>

definition frame_ok :: "Frame \<Rightarrow> bool" where
  "frame_ok f \<longleftrightarrow> kv_ok (f_KV f) \<and> (\<forall>m \<in> set (f_Messages f). message_ok m) \<and>
     length (f_tmp f) = 5 \<and> length (f_varintBuf f) = MaxLen"

text \<open>A clean frame is a new one, up to the contents of its scratch buffers.\<close>

definition frame_clean :: "Frame \<Rightarrow> bool" where
  "frame_clean f \<longleftrightarrow> frame_ok f \<and> kv_m (f_KV f) = [] \<and>
     f = \<lparr>f_Len = 0, f_Type = 0, f_Flags = flagFin, f_EngineID = [], f_StreamID = 0, f_FrameID = 0,
       f_Healthcheck = False, f_MaxFrameSize = 0, f_KV = f_KV f, f_Messages = [], f_Actions = [],
       f_tmp = f_tmp f, f_varintBuf = f_varintBuf f\<rparr>"

definition frame_pool_ok :: "'x frame_pools_scheme \<Rightarrow> bool" where
  "frame_pool_ok ps \<longleftrightarrow> msg_pool_ok ps \<and> (\<forall>f \<in> set (framePool ps). frame_clean f)"

lemma frame_clean_fields:
  assumes "frame_clean f"
  shows "f_Len f = 0" "f_Type f = 0" "f_Flags f = flagFin" "f_EngineID f = []" "f_StreamID f = 0"
    "f_FrameID f = 0" "\<not> f_Healthcheck f" "f_MaxFrameSize f = 0" "kv_clean (f_KV f)"
    "f_Messages f = []" "f_Actions f = []" "frame_ok f" "length (f_tmp f) = 5"
    "length (f_varintBuf f) = MaxLen" "kv_m (f_KV f) = []"
  using assms by (cases f; simp add: frame_clean_def frame_ok_def kv_clean_def)+

lemma msg_pool_ok_update [go_simps]:
  "msg_pool_ok (ps\<lparr>framePool := p\<rparr>) = msg_pool_ok (ps :: 'x frame_pools_scheme)"
  "msg_pool_ok (ps\<lparr>frame_out := i\<rparr>) = msg_pool_ok (ps :: 'x frame_pools_scheme)"
  "msg_pool_ok (snd (next_pick qs)) = msg_pool_ok qs"
  by (simp_all add: msg_pool_ok_def kv_pool_ok_def next_pick_def)

lemma framePool_keep [keep_simps]:
  "framePool (snd (AcquireKV ps)) = framePool (ps :: 'x frame_pools_scheme)"
  "framePool (snd (next_pick ps)) = framePool (ps :: 'x frame_pools_scheme)"
  "framePool (snd (ReleaseMessage m ps)) = framePool (ps :: 'x frame_pools_scheme)"
  "framePool (snd (AcquireMessage ps)) = framePool (ps :: 'x frame_pools_scheme)"
  "frame_out (snd (AcquireKV ps)) = frame_out (ps :: 'x frame_pools_scheme)"
  "frame_out (snd (next_pick ps)) = frame_out (ps :: 'x frame_pools_scheme)"
  "frame_out (snd (ReleaseMessage m ps)) = frame_out (ps :: 'x frame_pools_scheme)"
  "frame_out (snd (AcquireMessage ps)) = frame_out (ps :: 'x frame_pools_scheme)"
  by (auto simp: AcquireKV_def ReleaseKV_def next_pick_def ReleaseMessage_def Message_Reset_def
      AcquireMessage_def newMessage_def Let_def split: option.splits)

lemma framePool_fold_release [keep_simps]:
  "framePool (fold (\<lambda>m ps. snd (ReleaseMessage m ps)) ms ps) = framePool (ps :: 'x frame_pools_scheme)"
  "frame_out (fold (\<lambda>m ps. snd (ReleaseMessage m ps)) ms ps) = frame_out (ps :: 'x frame_pools_scheme)"
  by (induction ms arbitrary: ps) (simp_all add: keep_simps)

lemma msg_out_fold_release:
  "msg_out (fold (\<lambda>m ps. snd (ReleaseMessage m ps)) ms ps) = msg_out ps - int (length ms)"
  by (induction ms arbitrary: ps) (simp_all add: msg_out_simps)

lemma AcquireKV_msg_pool_ok:
  "msg_pool_ok ps \<Longrightarrow> kv_clean (fst (AcquireKV ps)) \<and> msg_pool_ok (snd (AcquireKV ps))"
  using kv_pool.acquire_ok [of ps "fst (AcquireKV ps)" "snd (AcquireKV ps)"]
    messagePool_keep(1) [of ps]
  by (simp add: msg_pool_ok_def)

lemma NewFrame_ok:
  "msg_pool_ok ps \<Longrightarrow> frame_clean (fst (NewFrame ps)) \<and> msg_pool_ok (snd (NewFrame ps))"
  using AcquireKV_msg_pool_ok [of ps]
  by (auto simp: NewFrame_def frame_clean_def frame_ok_def NewMessages_def MaxLen_def kv_clean_def
      split: prod.splits)

lemma Frame_Reset_ok:
  assumes "msg_pool_ok ps" and "frame_ok f"
  shows "frame_clean (fst (Frame_Reset f ps)) \<and> msg_pool_ok (snd (Frame_Reset f ps))"
proof -
  have "msg_pool_ok (fold (\<lambda>m ps. snd (ReleaseMessage m ps)) (f_Messages f) ps)"
    using assms by (intro msg_pool.release_all_ok) (simp_all add: frame_ok_def)
  with assms(2) show ?thesis
    by (simp add: Frame_Reset_def Messages_Reset_def frame_clean_def frame_ok_def kv_ok_def KV_Reset_def)
qed

lemma framePool_keep_frame [keep_simps]:
  "framePool (snd (NewFrame ps)) = framePool (ps :: 'x frame_pools_scheme)"
  "framePool (snd (Frame_Reset f ps)) = framePool (ps :: 'x frame_pools_scheme)"
  "frame_out (snd (NewFrame ps)) = frame_out (ps :: 'x frame_pools_scheme)"
  "frame_out (snd (Frame_Reset f ps)) = frame_out (ps :: 'x frame_pools_scheme)"
  by (simp_all add: NewFrame_def Frame_Reset_def Messages_Reset_def keep_simps case_prod_beta)

lemma AcquireFrame_ok:
  assumes "frame_pool_ok ps" and "AcquireFrame ps = (f, ps')"
  shows "frame_clean f \<and> frame_pool_ok ps'"
proof -
  obtain c qs where pick: "next_pick ps = (c, qs)" by fastforce
  let ?qs = "qs\<lparr>frame_out := frame_out qs + 1\<rparr>"
  have qs: "msg_pool_ok ?qs" "framePool ?qs = framePool ps"
    using assms(1) pick msg_pool_ok_update(3) [of ps] framePool_keep(2) [of ps]
    by (simp_all add: frame_pool_ok_def go_simps)
  show ?thesis
  proof (cases "pool_take (framePool ps) c")
    case None
    with assms(2) pick qs(2) have "NewFrame ?qs = (f, ps')"
      by (simp add: AcquireFrame_def)
    with NewFrame_ok [OF qs(1)] framePool_keep_frame(1) [of ?qs] qs(2) assms(1)
    show ?thesis by (simp add: frame_pool_ok_def)
  next
    case (Some p)
    with assms pick qs pool_take_Some [of "framePool ps" c] show ?thesis
      by (cases p) (fastforce simp: AcquireFrame_def frame_pool_ok_def go_simps)
  qed
qed

lemma ReleaseFrame_ok:
  assumes "frame_pool_ok ps" and "frame_ok f"
  shows "frame_pool_ok (ReleaseFrame f ps)"
  using assms Frame_Reset_ok [of ps f] framePool_keep_frame(2) [of f ps]
  by (auto simp: ReleaseFrame_def frame_pool_ok_def go_simps split: prod.splits)

interpretation frame_pool: reset_pool frame_pool_ok AcquireFrame ReleaseFrame frame_clean frame_ok
  by unfold_locales (rule AcquireFrame_ok, assumption+, rule ReleaseFrame_ok, assumption+,
    rule frame_clean_fields(12))

lemma frame_out_simps [go_simps]:
  "frame_out (snd (AcquireFrame ps)) = frame_out ps + 1"
  "frame_out (ReleaseFrame f ps) = frame_out ps - 1"
  using framePool_keep_frame(4) [of f ps]
  by (auto simp: AcquireFrame_def ReleaseFrame_def next_pick_def Let_def keep_simps case_prod_beta
      split: option.splits)

end
