(* ===== verification/GoIO.thy ===== *)
theory GoIO
  imports Prelude
begin

text \<open>
  The parts of Go's \<open>io\<close>, \<open>bytes\<close> and \<open>encoding/binary\<close> packages the protocol uses. A reader is
  the bytes still to come and the error the stream ends with; a writer is a function from the
  bytes handed to \<open>Write\<close> and the state behind it to the count and error \<open>Write\<close> reports.
\<close>

datatype io_error =
    EOF
  | ErrUnexpectedEOF
  | ErrDeadlineExceeded
  | ErrClosed
  | ErrShortWrite
  | OtherError nat

section \<open>Readers\<close>

record reader =
  rd_data :: bytes
  rd_end :: io_error

text \<open>\<open>io.ReadFull\<close> into a buffer of \<open>n\<close> bytes: what was read, and the error. A stream that ends
  inside the buffer reports \<open>ErrUnexpectedEOF\<close> in place of EOF unless nothing was read.\<close>

definition ReadFull :: "nat \<Rightarrow> reader \<Rightarrow> bytes \<times> io_error option \<times> reader" where
  "ReadFull n rd =
     (if n \<le> length (rd_data rd)
      then (take n (rd_data rd), None, rd\<lparr>rd_data := drop n (rd_data rd)\<rparr>)
      else (rd_data rd,
            Some (if rd_end rd = EOF \<and> rd_data rd \<noteq> [] then ErrUnexpectedEOF else rd_end rd),
            rd\<lparr>rd_data := []\<rparr>))"

section \<open>Writers\<close>

type_synonym 'w writer = "bytes \<Rightarrow> 'w \<Rightarrow> (nat \<times> io_error option) \<times> 'w"

text \<open>\<open>bytes.Buffer\<close>: the write always succeeds and appends.\<close>

definition buffer_write :: "bytes writer" where
  "buffer_write b w = ((length b, None), w @ b)"

section \<open>Big-endian integers\<close>

definition be32 :: "u32 \<Rightarrow> bytes" where
  "be32 v = [ucast (drop_bit 24 v), ucast (drop_bit 16 v), ucast (drop_bit 8 v), ucast v]"

fun be32_val :: "bytes \<Rightarrow> u32" where
  "be32_val (a # b # c # d # _) =
     ucast d OR push_bit 8 (ucast c) OR push_bit 16 (ucast b) OR push_bit 24 (ucast a)"
| "be32_val _ = 0"

lemma length_be32 [simp]: "length (be32 v) = 4"
  by (simp add: be32_def)

lemma be32_val_be32 [simp]: "be32_val (be32 v @ rest) = v"
proof (unfold be32_def append_Cons be32_val.simps, rule bit_word_eqI)
  fix n
  assume "n < LENGTH(32)"
  then show "bit (ucast (ucast v :: byte) OR push_bit 8 (ucast (ucast (drop_bit 8 v) :: byte)) OR
      push_bit 16 (ucast (ucast (drop_bit 16 v) :: byte)) OR
      push_bit 24 (ucast (ucast (drop_bit 24 v) :: byte)) :: u32) n = bit v n"
    by (cases "24 \<le> n"; cases "16 \<le> n"; cases "8 \<le> n") (auto simp: bit_simps)
qed

lemma be32_val_be32' [simp]: "be32_val (be32 v) = v"
  using be32_val_be32 [of v "[]"] by simp

lemma be32_be32_val:
  assumes "length b = 4"
  shows "be32 (be32_val b) = b"
proof -
  obtain p q r s where b: "b = [p, q, r, s]"
    using assms by (auto simp: length_Suc_conv numeral_eq_Suc)
  let ?v = "be32_val b"
  have "ucast (drop_bit 24 ?v) = p" and "ucast (drop_bit 16 ?v) = q"
    and "ucast (drop_bit 8 ?v) = r" and "ucast ?v = s"
    unfolding b be32_val.simps by (rule bit_word_eqI; auto simp: bit_simps dest: bit_imp_le_length)+
  then show ?thesis unfolding be32_def by (simp only: b)
qed

section \<open>What ReadFull returns\<close>

lemma ReadFull_length: "ReadFull n rd = (got, err, rd') \<Longrightarrow> length got \<le> n \<and> (err = None \<longrightarrow> length got = n)"
  by (auto simp: ReadFull_def split: if_splits)

lemma ReadFull_split:
  "ReadFull n rd = (got, err, rd') \<Longrightarrow> rd_data rd = got @ rd_data rd' \<and> rd_end rd' = rd_end rd"
  by (auto simp: ReadFull_def split: if_splits)

end
