(* ===== verification/Frame_Codec.thy ===== *)
theory Frame_Codec
  imports Frame GoIO
begin

text \<open>
  Package \<open>frame\<close>, its wire format: \<open>Encode\<close> (\<open>src/frame/encode.go\<close>) and \<open>Read\<close>/\<open>ReadLimit\<close>
  (\<open>src/frame/read.go\<close>). Both update the frame they are called on, scratch buffers included,
  and keep what they had written to it when they fail; \<open>ReadLimit\<close> also takes messages from
  the pool, so it threads the pools.
\<close>

section \<open>Encode\<close>

datatype encode_error =
    EncAbortWithoutFin
  | EncKV td_error
  | EncAction action_error
  | EncNotifyMessages
  | EncUnexpectedType byte
  | EncWrite nat nat "io_error option"

definition encode_payload :: "Frame \<Rightarrow> (encode_error + bytes) \<times> Frame" where
  "encode_payload f =
     (if f_Type f \<in> {TypeAgentHello, TypeAgentDisconnect, TypeHAProxyHello, TypeHAProxyDisconnect} then
        (let (r, kv) = KV_Bytes (f_KV f) in (map_sum EncKV id r, f\<lparr>f_KV := kv\<rparr>))
      else if f_Type f = TypeAgentAck then
        (map_sum EncAction id (marshal_all (f_Actions f) []), f)
      else if f_Type f = TypeNotify then
        (if 0 < length (f_Messages f) then (Inl EncNotifyMessages, f) else (Inr [], f))
      else (Inl (EncUnexpectedType (f_Type f)), f))"

definition Frame_Encode ::
  "'w writer \<Rightarrow> Frame \<Rightarrow> 'w \<Rightarrow> (nat \<times> encode_error option) \<times> Frame \<times> 'w" where
  "Frame_Encode write f dest =
     (if IsAbort f \<and> \<not> IsFin f then ((0, Some EncAbortWithoutFin), f, dest)
      else
        let buf = replicate frameLengthPrefix 0;
            buf = buf @ [f_Type f];
            f = f\<lparr>f_tmp := be32 (f_Flags f) @ drop 4 (f_tmp f)\<rparr>;
            buf = buf @ take 4 (f_tmp f);
            (vb, varintLen) = PutUvarint (f_varintBuf f) (f_StreamID f);
            buf = buf @ take (nat varintLen) vb;
            (vb, varintLen) = PutUvarint vb (f_FrameID f);
            buf = buf @ take (nat varintLen) vb;
            f = f\<lparr>f_varintBuf := vb\<rparr>
        in case encode_payload f of
             (Inl err, f) \<Rightarrow> ((0, Some err), f, dest)
           | (Inr payload, f) \<Rightarrow>
               let buf = buf @ payload;
                   f = f\<lparr>f_Len := word_of_nat (length buf - frameLengthPrefix)\<rparr>;
                   buf = be32 (f_Len f) @ drop frameLengthPrefix buf;
                   ((n, err), dest) = write buf dest
               in if err \<noteq> None \<or> n \<noteq> length buf
                  then ((n, Some (EncWrite n (length buf) err)), f, dest)
                  else ((n, None), f, dest))"

section \<open>ReadLimit\<close>

datatype read_error =
    RdEOF
  | RdHeader io_error
  | RdUnexpectedType byte
  | RdUnexpectedPeer byte
  | RdInvalidLength u32
  | RdTooBig u32 u32
  | RdBody io_error
  | RdBodyLength nat u32
  | RdStreamID
  | RdFrameID
  | RdKV kv_error
  | RdHealthcheck go_value
  | RdMaxFrameSize go_value
  | RdEngineID go_value
  | RdMessages msg_error
  | RdActions unmarshal_error

fun acceptsType :: "byte list option \<Rightarrow> byte \<Rightarrow> bool" where
  "acceptsType None t = True"
| "acceptsType (Some accept) t = (t \<in> set accept)"

text \<open>Go's type assertions \<open>v.(bool)\<close>, \<open>v.(uint32)\<close> and \<open>v.(string)\<close> in their two-result form.\<close>

definition as_bool :: "go_value \<Rightarrow> bool option" where
  "as_bool v = (case v of VBool b \<Rightarrow> Some b | _ \<Rightarrow> None)"

definition as_uint32 :: "go_value \<Rightarrow> u32 option" where
  "as_uint32 v = (case v of VUint32 u \<Rightarrow> Some u | _ \<Rightarrow> None)"

definition as_string :: "go_value \<Rightarrow> gostring option" where
  "as_string v = (case v of VString s \<Rightarrow> Some s | _ \<Rightarrow> None)"

text \<open>The typed items of a HELLO or DISCONNECT, lines 104 to 127: each present item must have
  its type, and the first that does not ends the read. \<open>typed_item\<close> is the block the source
  repeats for each of the three.\<close>

definition typed_item ::
  "gostring \<Rightarrow> (go_value \<Rightarrow> 'a option) \<Rightarrow> (go_value \<Rightarrow> read_error) \<Rightarrow> ('a \<Rightarrow> Frame \<Rightarrow> Frame) \<Rightarrow>
   Frame \<Rightarrow> read_error + Frame" where
  "typed_item key cast err store f =
     (let (v, ok) = KV_Get (f_KV f) key in
      if ok then (case cast v of Some x \<Rightarrow> Inr (store x f) | None \<Rightarrow> Inl (err v)) else Inr f)"

definition read_hello_items :: "Frame \<Rightarrow> read_error option \<times> Frame" where
  "read_hello_items f =
     (case typed_item (gostr ''healthcheck'') as_bool RdHealthcheck (\<lambda>b f. f\<lparr>f_Healthcheck := b\<rparr>) f of
        Inl err \<Rightarrow> (Some err, f)
      | Inr f \<Rightarrow>
          (case typed_item (gostr ''max-frame-size'') as_uint32 RdMaxFrameSize (\<lambda>u f. f\<lparr>f_MaxFrameSize := u\<rparr>) f of
             Inl err \<Rightarrow> (Some err, f)
           | Inr f \<Rightarrow>
               (case typed_item (gostr ''engine-id'') as_string RdEngineID (\<lambda>e f. f\<lparr>f_EngineID := e\<rparr>) f of
                  Inl err \<Rightarrow> (Some err, f)
                | Inr f \<Rightarrow> (None, f))))"

definition read_payload ::
  "Frame \<Rightarrow> bytes \<Rightarrow> 'x frame_pools_scheme \<Rightarrow> read_error option \<times> Frame \<times> 'x frame_pools_scheme" where
  "read_payload f buf ps =
     (if f_Type f = TypeHAProxyHello \<or> f_Type f = TypeHAProxyDisconnect then
        (case KV_Unmarshal (f_KV f) buf of
           (kv, Some e) \<Rightarrow> (Some (RdKV e), f\<lparr>f_KV := kv\<rparr>, ps)
         | (kv, None) \<Rightarrow> (let (err, f) = read_hello_items (f\<lparr>f_KV := kv\<rparr>) in (err, f, ps)))
      else if f_Type f = TypeAgentHello \<or> f_Type f = TypeAgentDisconnect then
        (let (kv, err) = KV_Unmarshal (f_KV f) buf in (map_option RdKV err, f\<lparr>f_KV := kv\<rparr>, ps))
      else if f_Type f = TypeNotify then
        (let (ms, err, ps) = Messages_Decode (f_Messages f) buf ps
         in (map_option RdMessages err, f\<lparr>f_Messages := ms\<rparr>, ps))
      else if f_Type f = TypeAgentAck then
        (case Unmarshal buf of
           Inl e \<Rightarrow> (Some (RdActions e), f\<lparr>f_Actions := []\<rparr>, ps)
         | Inr acts \<Rightarrow> (None, f\<lparr>f_Actions := acts\<rparr>, ps))
      else (Some (RdUnexpectedType (f_Type f)), f, ps))"

text \<open>The body of a frame, lines 84 to 154; it holds at least the four bytes of FLAGS.\<close>

definition read_body ::
  "Frame \<Rightarrow> bytes \<Rightarrow> 'x frame_pools_scheme \<Rightarrow> read_error option \<times> Frame \<times> 'x frame_pools_scheme" where
  "read_body f buf ps =
     (let f = f\<lparr>f_Flags := be32_val (take 4 buf)\<rparr>;
          buf = drop 4 buf;
          (v, n) = Uvarint buf;
          f = f\<lparr>f_StreamID := v\<rparr>
      in if n < 0 then (Some RdStreamID, f, ps)
         else
           let buf = drop (nat n) buf;
               (v, n) = Uvarint buf;
               f = f\<lparr>f_FrameID := v\<rparr>
           in if n < 0 then (Some RdFrameID, f, ps)
              else read_payload f (drop (nat n) buf) ps)"

definition Frame_ReadLimit ::
  "Frame \<Rightarrow> reader \<Rightarrow> u32 \<Rightarrow> byte list option \<Rightarrow> 'x frame_pools_scheme \<Rightarrow>
   read_error option \<times> Frame \<times> reader \<times> 'x frame_pools_scheme" where
  "Frame_ReadLimit f src limit accept ps =
     (let limit = min limit MaxFrameSize;
          (got, err, src) = ReadFull 5 src;
          f = f\<lparr>f_tmp := got @ drop (length got) (f_tmp f)\<rparr>
      in case err of
           Some e \<Rightarrow> (Some (if e = EOF then RdEOF else RdHeader e), f, src, ps)
         | None \<Rightarrow>
             let f = f\<lparr>f_Len := be32_val (take 4 (f_tmp f)), f_Type := f_tmp f ! 4\<rparr> in
             if f_Type f \<notin> {TypeHAProxyHello, TypeHAProxyDisconnect, TypeNotify, TypeAgentHello,
                            TypeAgentDisconnect, TypeAgentAck}
             then (Some (RdUnexpectedType (f_Type f)), f, src, ps)
             else if \<not> acceptsType accept (f_Type f)
             then (Some (RdUnexpectedPeer (f_Type f)), f, src, ps)
             else if f_Len f < minFrameLen then (Some (RdInvalidLength (f_Len f)), f, src, ps)
             else if limit < f_Len f then (Some (RdTooBig (f_Len f) limit), f, src, ps)
             else
               let (buf, err, src) = ReadFull (unat (f_Len f - 1)) src in
               case err of
                 Some e \<Rightarrow> (Some (RdBody e), f, src, ps)
               | None \<Rightarrow>
                   if word_of_nat (length buf) \<noteq> f_Len f - 1
                   then (Some (RdBodyLength (length buf) (f_Len f)), f, src, ps)
                   else let (err, f, ps) = read_body f buf ps in (err, f, src, ps))"

definition Frame_Read ::
  "Frame \<Rightarrow> reader \<Rightarrow> 'x frame_pools_scheme \<Rightarrow> read_error option \<times> Frame \<times> reader \<times> 'x frame_pools_scheme" where
  "Frame_Read f src ps = Frame_ReadLimit f src MaxFrameSize None ps"

section \<open>What Encode writes\<close>

definition frame_body :: "Frame \<Rightarrow> bytes \<Rightarrow> bytes" where
  "frame_body f payload =
     f_Type f # be32 (f_Flags f) @ put_scratch (f_StreamID f) @ put_scratch (f_FrameID f) @ payload"

definition frame_wire :: "Frame \<Rightarrow> bytes \<Rightarrow> bytes" where
  "frame_wire f payload =
     be32 (word_of_nat (length (frame_body f payload))) @ frame_body f payload"

text \<open>Two frames with the same contents: everything but the scratch buffers and the length.\<close>

definition same_contents :: "Frame \<Rightarrow> Frame \<Rightarrow> bool" where
  "same_contents f g \<longleftrightarrow>
     f_Type f = f_Type g \<and> f_Flags f = f_Flags g \<and> f_EngineID f = f_EngineID g \<and>
     f_StreamID f = f_StreamID g \<and> f_FrameID f = f_FrameID g \<and> f_Healthcheck f = f_Healthcheck g \<and>
     f_MaxFrameSize f = f_MaxFrameSize g \<and> kv_m (f_KV f) = kv_m (f_KV g) \<and>
     f_Messages f = f_Messages g \<and> f_Actions f = f_Actions g"

lemma encode_payload_scratch:
  "encode_payload (f\<lparr>f_tmp := a, f_varintBuf := b\<rparr>) =
     (fst (encode_payload f), (snd (encode_payload f))\<lparr>f_tmp := a, f_varintBuf := b\<rparr>)"
  by (simp add: encode_payload_def case_prod_beta)

lemma encode_payload_frame:
  assumes "frame_ok f"
  shows "frame_ok (snd (encode_payload f)) \<and> same_contents (snd (encode_payload f)) f \<and>
    f_tmp (snd (encode_payload f)) = f_tmp f \<and> f_varintBuf (snd (encode_payload f)) = f_varintBuf f"
proof -
  have "kv_ok (f_KV f)" using assms by (simp add: frame_ok_def)
  from KV_Bytes_spec(2,3) [OF this] assms show ?thesis
    by (simp add: encode_payload_def frame_ok_def same_contents_def case_prod_beta)
qed

lemma Frame_Encode_cases:
  assumes "frame_ok f"
  obtains f' where "frame_ok f'" and "same_contents f' f" and
    "Frame_Encode write f dest =
       (if IsAbort f \<and> \<not> IsFin f then ((0, Some EncAbortWithoutFin), f, dest)
        else case fst (encode_payload f) of
            Inl err \<Rightarrow> ((0, Some err), f', dest)
          | Inr payload \<Rightarrow>
              (case write (frame_wire f payload) dest of ((n, err), dest') \<Rightarrow>
                 ((n, if err \<noteq> None \<or> n \<noteq> length (frame_wire f payload)
                      then Some (EncWrite n (length (frame_wire f payload)) err) else None),
                  f'\<lparr>f_Len := word_of_nat (length (frame_body f payload))\<rparr>, dest')))"
proof -
  let ?tmp = "be32 (f_Flags f) @ drop 4 (f_tmp f)"
  let ?s = "put_scratch (f_StreamID f)" and ?t = "put_scratch (f_FrameID f)"
  let ?v1 = "?s @ drop (length ?s) (f_varintBuf f)"
  let ?v2 = "?t @ drop (length ?t) ?v1"
  have len: "length (f_varintBuf f) = MaxLen" "length (f_tmp f) = 5"
    using assms by (simp_all add: frame_ok_def)
  have p1: "PutUvarint (f_varintBuf f) (f_StreamID f) = (?v1, int (length ?s))"
    using len length_put_scratch(2) [of "f_StreamID f"] by (simp add: PutUvarint_fits)
  have l1: "length ?v1 = MaxLen" using len length_put_scratch(2) [of "f_StreamID f"] by simp
  have p2: "PutUvarint ?v1 (f_FrameID f) = (?v2, int (length ?t))"
    using l1 length_put_scratch(2) [of "f_FrameID f"] by (simp add: PutUvarint_fits del: length_append)
  have l2: "length ?v2 = MaxLen" using l1 length_put_scratch(2) [of "f_FrameID f"] by simp
  define f' where "f' = (snd (encode_payload f))\<lparr>f_tmp := ?tmp, f_varintBuf := ?v2\<rparr>"
  have "frame_ok f'" and "same_contents f' f"
    using encode_payload_frame [OF assms] l2 len(2)
    by (simp_all add: f'_def frame_ok_def same_contents_def)
  moreover have "encode_payload (f\<lparr>f_tmp := ?tmp, f_varintBuf := ?v2\<rparr>) = (fst (encode_payload f), f')"
    by (simp only: encode_payload_scratch f'_def)
  ultimately show ?thesis
    using p1 p2
    by (intro that [of f'])
       (auto simp: Frame_Encode_def frame_wire_def frame_body_def frameLengthPrefix_def Let_def
          case_prod_beta split: sum.splits)
qed

lemma Frame_Encode_split:
  assumes "frame_ok f" and "Frame_Encode write f dest = ((n, err), f', dest')"
  shows "frame_ok f' \<and> same_contents f' f \<and>
    ((IsAbort f \<and> \<not> IsFin f \<and> err = Some EncAbortWithoutFin \<and> n = 0 \<and> dest' = dest) \<or>
     (\<not> (IsAbort f \<and> \<not> IsFin f) \<and>
       (\<exists>e. fst (encode_payload f) = Inl e \<and> err = Some e \<and> n = 0 \<and> dest' = dest)) \<or>
     (\<not> (IsAbort f \<and> \<not> IsFin f) \<and>
       (\<exists>payload werr. fst (encode_payload f) = Inr payload \<and>
          write (frame_wire f payload) dest = ((n, werr), dest') \<and>
          f_Len f' = word_of_nat (length (frame_body f payload)) \<and>
          (err = None \<longleftrightarrow> werr = None \<and> n = length (frame_wire f payload)))))"
proof -
  obtain g where "frame_ok g" "same_contents g f" and eq: "Frame_Encode write f dest =
       (if IsAbort f \<and> \<not> IsFin f then ((0, Some EncAbortWithoutFin), f, dest)
        else case fst (encode_payload f) of
            Inl err \<Rightarrow> ((0, Some err), g, dest)
          | Inr payload \<Rightarrow>
              (case write (frame_wire f payload) dest of ((n, err), dest') \<Rightarrow>
                 ((n, if err \<noteq> None \<or> n \<noteq> length (frame_wire f payload)
                      then Some (EncWrite n (length (frame_wire f payload)) err) else None),
                  g\<lparr>f_Len := word_of_nat (length (frame_body f payload))\<rparr>, dest')))"
    by (rule Frame_Encode_cases [OF assms(1)])
  note eq = eq [unfolded assms(2)]
  have len: "frame_ok (g\<lparr>f_Len := l\<rparr>)" "same_contents (g\<lparr>f_Len := l\<rparr>) f" for l
    using \<open>frame_ok g\<close> \<open>same_contents g f\<close> by (simp_all add: frame_ok_def same_contents_def)
  have refl: "same_contents f f" by (simp add: same_contents_def)
  show ?thesis
  proof (cases "IsAbort f \<and> \<not> IsFin f")
    case True
    with eq assms(1) refl show ?thesis by simp
  next
    case False
    note eq = eq [unfolded if_not_P [OF False]]
    show ?thesis
    proof (cases "fst (encode_payload f)")
      case (Inl e)
      with eq False \<open>frame_ok g\<close> \<open>same_contents g f\<close> show ?thesis by simp
    next
      case (Inr payload)
      obtain k werr d where "write (frame_wire f payload) dest = ((k, werr), d)"
        by (metis prod.exhaust)
      with eq Inr False len show ?thesis by simp
    qed
  qed
qed

section \<open>What ReadLimit reads\<close>

text \<open>The typed items a HELLO needs: an item of the name is absent, or has the type.\<close>

definition item_as :: "(go_value \<Rightarrow> 'a option) \<Rightarrow> gostring \<Rightarrow> KV \<Rightarrow> 'a option" where
  "item_as cast key kv = (let (v, ok) = KV_Get kv key in if ok then cast v else None)"

definition item_typed :: "(go_value \<Rightarrow> 'a option) \<Rightarrow> gostring \<Rightarrow> KV \<Rightarrow> bool" where
  "item_typed cast key kv \<longleftrightarrow> \<not> snd (KV_Get kv key) \<or> cast (fst (KV_Get kv key)) \<noteq> None"

definition hello_typed :: "KV \<Rightarrow> bool" where
  "hello_typed kv \<longleftrightarrow> item_typed as_bool (gostr ''healthcheck'') kv \<and>
     item_typed as_uint32 (gostr ''max-frame-size'') kv \<and> item_typed as_string (gostr ''engine-id'') kv"

lemma typed_item_eq:
  "typed_item key cast err store f =
     (if item_typed cast key (f_KV f)
      then Inr (case item_as cast key (f_KV f) of Some x \<Rightarrow> store x f | None \<Rightarrow> f)
      else Inl (err (fst (KV_Get (f_KV f) key))))"
  by (auto simp: typed_item_def item_typed_def item_as_def split: prod.splits option.splits)

text \<open>A successful pass over the typed items has copied each present item to its field.\<close>

lemma read_hello_items_None:
  "fst (read_hello_items f) = None \<longleftrightarrow> hello_typed (f_KV f)"
  by (auto simp: read_hello_items_def typed_item_eq hello_typed_def split: option.splits)

lemma read_hello_items_keep:
  "f_KV (snd (read_hello_items f)) = f_KV f" "f_Type (snd (read_hello_items f)) = f_Type f"
  "f_Flags (snd (read_hello_items f)) = f_Flags f" "f_StreamID (snd (read_hello_items f)) = f_StreamID f"
  "f_FrameID (snd (read_hello_items f)) = f_FrameID f" "f_Len (snd (read_hello_items f)) = f_Len f"
  "f_Messages (snd (read_hello_items f)) = f_Messages f" "f_Actions (snd (read_hello_items f)) = f_Actions f"
  "f_tmp (snd (read_hello_items f)) = f_tmp f" "f_varintBuf (snd (read_hello_items f)) = f_varintBuf f"
  by (simp_all add: read_hello_items_def typed_item_eq split: option.split)

lemma read_hello_items_fields:
  assumes "hello_typed (f_KV f)"
  shows "f_Healthcheck (snd (read_hello_items f)) =
      (case item_as as_bool (gostr ''healthcheck'') (f_KV f) of Some b \<Rightarrow> b | None \<Rightarrow> f_Healthcheck f)"
    and "f_MaxFrameSize (snd (read_hello_items f)) =
      (case item_as as_uint32 (gostr ''max-frame-size'') (f_KV f) of Some u \<Rightarrow> u | None \<Rightarrow> f_MaxFrameSize f)"
    and "f_EngineID (snd (read_hello_items f)) =
      (case item_as as_string (gostr ''engine-id'') (f_KV f) of Some e \<Rightarrow> e | None \<Rightarrow> f_EngineID f)"
  using assms
  by (auto simp: read_hello_items_def typed_item_eq hello_typed_def split: option.splits)

lemma frame_ok_hello [go_simps]: "frame_ok (snd (read_hello_items f)) = frame_ok f"
  by (simp add: frame_ok_def read_hello_items_keep)

text \<open>Reading the header of a frame whose type passes the gates and whose length fits.\<close>

definition known_types :: "byte set" where
  "known_types = {TypeHAProxyHello, TypeHAProxyDisconnect, TypeNotify, TypeAgentHello,
     TypeAgentDisconnect, TypeAgentAck}"

lemma ReadFull_exact: "n = length a \<Longrightarrow>
  ReadFull n \<lparr>rd_data = a @ b, rd_end = e\<rparr> = (a, None, \<lparr>rd_data = b, rd_end = e\<rparr>)"
  by (simp add: ReadFull_def)

lemma Frame_ReadLimit_wire:
  assumes f: "length (f_tmp g) = 5" and t: "t \<in> known_types" "acceptsType accept t"
    and l: "4 \<le> length body" "Suc (length body) \<le> unat (min limit MaxFrameSize)"
  shows "Frame_ReadLimit g \<lparr>rd_data = be32 (word_of_nat (Suc (length body))) @ t # body @ rest, rd_end = e\<rparr>
      limit accept ps =
    (let g' = g\<lparr>f_tmp := be32 (word_of_nat (Suc (length body))) @ [t],
                f_Len := word_of_nat (Suc (length body)), f_Type := t\<rparr>;
         (err, g'', ps') = read_body g' body ps
     in (err, g'', \<lparr>rd_data = rest, rd_end = e\<rparr>, ps'))"
proof -
  let ?len = "word_of_nat (Suc (length body)) :: u32"
  have lim: "unat (min limit MaxFrameSize) < 2 ^ 32" using unsigned_less [of "min limit MaxFrameSize"] by simp
  from lim l have u: "unat ?len = Suc (length body)" by (simp add: unat_of_nat del: of_nat_Suc)
  have u1: "unat (?len - 1) = length body"
    using lim l by (simp add: unat_of_nat)
  have w1: "word_of_nat (length body) = ?len - 1" by simp
  have "ReadFull 5 \<lparr>rd_data = be32 ?len @ t # body @ rest, rd_end = e\<rparr> =
      (be32 ?len @ [t], None, \<lparr>rd_data = body @ rest, rd_end = e\<rparr>)"
    using ReadFull_exact [of 5 "be32 ?len @ [t]" "body @ rest" e] by simp
  moreover have "ReadFull (unat (?len - 1)) \<lparr>rd_data = body @ rest, rd_end = e\<rparr> =
      (body, None, \<lparr>rd_data = rest, rd_end = e\<rparr>)"
    using u1 by (simp add: ReadFull_exact)
  moreover have "\<not> ?len < minFrameLen" and "\<not> min limit MaxFrameSize < ?len"
    using l u by (simp_all add: word_less_nat_alt minFrameLen_def)
  ultimately show ?thesis
    using f t w1
    by (simp add: Frame_ReadLimit_def [folded known_types_def] nth_append Let_def case_prod_beta del: of_nat_Suc)
qed

lemma read_body_ids:
  "read_body g (be32 fl @ put_scratch s @ put_scratch i @ payload) ps =
     read_payload (g\<lparr>f_Flags := fl, f_StreamID := s, f_FrameID := i\<rparr>) payload ps"
  by (simp add: read_body_def uv.get_put)

section \<open>The round trip\<close>

text \<open>Sizes a Go slice can have. \<open>Encode\<close> checks neither the scopes of an ACK's actions nor the types of
  a HAPROXY-HELLO's or HAPROXY-DISCONNECT's items; \<open>ReadLimit\<close> does, which is \<open>payload_readable\<close>.\<close>

definition payload_sized :: "Frame \<Rightarrow> bool" where
  "payload_sized f \<longleftrightarrow>
     list_all (\<lambda>i. go_sized (item_Name i) \<and> td_sized (item_Value i)) (kv_m (f_KV f)) \<and>
     list_all (\<lambda>a. go_sized (act_Name a) \<and> td_sized (act_Value a)) (f_Actions f)"

definition payload_readable :: "Frame \<Rightarrow> bool" where
  "payload_readable f \<longleftrightarrow>
     (f_Type f = TypeAgentAck \<longrightarrow> list_all (\<lambda>a. unat (act_Scope a) \<le> 4) (f_Actions f)) \<and>
     (f_Type f \<in> {TypeHAProxyHello, TypeHAProxyDisconnect} \<longrightarrow> hello_typed (f_KV f))"

definition payload_ok :: "Frame \<Rightarrow> bool" where
  "payload_ok f \<longleftrightarrow> payload_sized f \<and> payload_readable f"

lemma kv_get_norm:
  "kv_get_loop k (map item_norm xs) = map_prod td_norm id (kv_get_loop k xs)"
  by (induction xs) (simp_all add: item_norm_def td_norm_def)

lemma as_norm:
  "as_bool (td_norm v) = as_bool v" "as_uint32 (td_norm v) = as_uint32 v"
  "as_string (td_norm v) = as_string v"
  by (cases v; simp add: td_norm_def as_bool_def as_uint32_def as_string_def)+

lemma hello_typed_norm:
  "kv_m kv' = map item_norm (kv_m kv) \<Longrightarrow> hello_typed kv' = hello_typed kv"
  by (simp add: hello_typed_def item_typed_def KV_Get_def kv_get_norm as_norm)

lemma KV_payload:
  assumes "kv_ok kv" and "fst (KV_Bytes kv) = Inr payload"
    and "list_all (\<lambda>i. go_sized (item_Name i) \<and> td_sized (item_Value i)) (kv_m kv)"
  shows "KV_Unmarshal dest payload = (dest\<lparr>kv_m := kv_m dest @ map item_norm (kv_m kv)\<rparr>, None)"
proof -
  from assms(2) KV_Bytes_spec(1) [OF assms(1)]
  have none: "find (\<lambda>i. \<not> encodable (item_Value i)) (kv_m kv) = None"
    by (auto split: option.splits simp: Encode_spec find_Some_iff)
  with assms(2) KV_Bytes_spec(1) [OF assms(1)]
  have "payload = concat (map item_bytes (kv_m kv))" by simp
  moreover from none assms(3) have "\<forall>i \<in> set (kv_m kv). item_ok i"
    by (auto simp: find_None_iff item_ok_def list_all_iff)
  ultimately show ?thesis
    using kv_list.loop_concat [of "kv_m kv" "kv_m dest"] by (simp add: KV_Unmarshal_def)
qed

lemma read_payload_encode:
  assumes ok: "frame_ok f" and enc: "fst (encode_payload f) = Inr payload" and sz: "payload_sized f"
    and g: "f_Type g = f_Type f" "kv_clean (f_KV g)" "f_Messages g = []" "f_Actions g = []"
  shows "\<exists>err g'. read_payload g payload ps = (err, g', ps) \<and> (err = None \<longleftrightarrow> payload_readable f) \<and>
    f_Type g' = f_Type g \<and> f_Flags g' = f_Flags g \<and> f_StreamID g' = f_StreamID g \<and>
    f_FrameID g' = f_FrameID g \<and> f_Len g' = f_Len g \<and>
    kv_m (f_KV g') = (if f_Type f \<in> {TypeAgentAck, TypeNotify} then [] else map item_norm (kv_m (f_KV f))) \<and>
    f_Actions g' = (if f_Type f = TypeAgentAck \<and> err = None then map act_norm (f_Actions f) else []) \<and>
    f_Messages g' = []"
proof -
  have kv: "kv_ok (f_KV f)" using ok by (simp add: frame_ok_def)
  have gm: "kv_m (f_KV g) = []" using g(2) by (simp add: kv_clean_def)
  consider (hap) "f_Type f \<in> {TypeHAProxyHello, TypeHAProxyDisconnect}"
    | (agent) "f_Type f \<in> {TypeAgentHello, TypeAgentDisconnect}" | (ack) "f_Type f = TypeAgentAck"
    | (notify) "f_Type f = TypeNotify"
    using enc by (auto simp: encode_payload_def split: if_splits)
  then show ?thesis
  proof cases
    case hap
    with enc have p: "fst (KV_Bytes (f_KV f)) = Inr payload"
      by (auto simp: encode_payload_def case_prod_beta map_sum_def split: sum.splits)
    let ?kv = "(f_KV g)\<lparr>kv_m := map item_norm (kv_m (f_KV f))\<rparr>"
    have u: "KV_Unmarshal (f_KV g) payload = (?kv, None)"
      using KV_payload [OF kv p, of "f_KV g"] sz gm by (simp add: payload_sized_def)
    have "hello_typed ?kv = payload_readable f"
      using hap hello_typed_norm [of ?kv "f_KV f"] by (auto simp: payload_readable_def frame_type_defs)
    with u hap g read_hello_items_None [of "g\<lparr>f_KV := ?kv\<rparr>"] show ?thesis
      by (auto simp: read_payload_def read_hello_items_keep case_prod_beta frame_type_defs)
  next
    case agent
    with enc have p: "fst (KV_Bytes (f_KV f)) = Inr payload"
      by (auto simp: encode_payload_def case_prod_beta map_sum_def split: sum.splits)
    with agent KV_payload [OF kv p, of "f_KV g"] sz gm g show ?thesis
      by (auto simp: read_payload_def payload_sized_def payload_readable_def frame_type_defs)
  next
    case ack
    with enc have m: "marshal_all (f_Actions f) [] = Inr payload"
      by (auto simp: encode_payload_def frame_type_defs map_sum_def split: sum.splits)
    with sz have "\<forall>a \<in> set (f_Actions f). act_encodable a \<and> go_sized (act_Name a) \<and> td_sized (act_Value a)"
      and "payload = concat (map act_bytes (f_Actions f))"
      by (auto simp: marshal_all_ok_iff payload_sized_def list_all_iff)
    then have "Unmarshal payload = (case find (\<lambda>a. 4 < unat (act_Scope a)) (f_Actions f) of
        None \<Rightarrow> Inr (map act_norm (f_Actions f)) | Some a \<Rightarrow> Inl (UnknownScope (act_Scope a)))"
      by (simp add: Unmarshal_act_bytes)
    moreover have "find (\<lambda>a. 4 < unat (act_Scope a)) (f_Actions f) = None \<longleftrightarrow> payload_readable f"
      using ack by (auto simp: payload_readable_def find_None_iff list_all_iff not_less frame_type_defs)
    ultimately show ?thesis
      using ack g gm by (cases "find (\<lambda>a. 4 < unat (act_Scope a)) (f_Actions f)") (auto simp: read_payload_def frame_type_defs)
  next
    case notify
    with enc have "payload = []"
      by (auto simp: encode_payload_def frame_type_defs split: if_splits)
    with notify g gm show ?thesis
      by (simp add: read_payload_def payload_readable_def frame_type_defs Messages_Decode.simps)
  qed
qed

lemma known_type_encode: "fst (encode_payload f) = Inr payload \<Longrightarrow> f_Type f \<in> known_types"
  by (auto simp: encode_payload_def known_types_def split: if_splits)

section \<open>What every read keeps\<close>

lemma Messages_Decode_keep:
  "framePool (snd (snd (Messages_Decode m buf ps))) = framePool (ps :: 'x frame_pools_scheme) \<and>
   frame_out (snd (snd (Messages_Decode m buf ps))) = frame_out (ps :: 'x frame_pools_scheme)"
  by (rule conjI; rule Messages_Decode_invariant; simp add: keep_simps)

lemma read_payload_ok:
  assumes "frame_ok f" and "frame_pool_ok ps" and "read_payload f buf ps = (err, f', ps')"
  shows "frame_ok f' \<and> frame_pool_ok ps' \<and> frame_out ps' = frame_out ps \<and> f_Type f' = f_Type f \<and>
    f_Len f' = f_Len f \<and>
    msg_out ps' - msg_out ps = int (length (f_Messages f')) - int (length (f_Messages f))"
proof (cases "f_Type f = TypeNotify")
  case True
  obtain ms e qs where d: "Messages_Decode (f_Messages f) buf ps = (ms, e, qs)"
    by (metis prod.exhaust)
  from Messages_Decode_refines [OF _ d] assms(1,2) Messages_Decode_keep [of "f_Messages f" buf ps] d
  have "frame_pool_ok qs" "frame_out qs = frame_out ps" "\<forall>x \<in> set ms. message_ok x"
    "msg_out qs + int (length (f_Messages f)) = msg_out ps + int (length ms)"
    by (auto simp: frame_pool_ok_def frame_ok_def)
  with True d assms(1,3) show ?thesis
    by (auto simp: read_payload_def frame_type_defs frame_ok_def)
next
  case False
  have "kv_ok (fst (KV_Unmarshal (f_KV f) buf))"
    using assms(1) by (simp add: frame_ok_def go_simps)
  then have "frame_ok (f\<lparr>f_KV := fst (KV_Unmarshal (f_KV f) buf)\<rparr>)"
    using assms(1) by (simp add: frame_ok_def)
  with False assms show ?thesis
    by (auto simp: read_payload_def go_simps read_hello_items_keep frame_ok_def case_prod_beta
        split: if_splits option.splits sum.splits)
qed

lemma read_body_ok:
  assumes "frame_ok f" and "frame_pool_ok ps" and "read_body f buf ps = (err, f', ps')"
  shows "frame_ok f' \<and> frame_pool_ok ps' \<and> frame_out ps' = frame_out ps \<and> f_Type f' = f_Type f \<and>
    f_Len f' = f_Len f \<and>
    msg_out ps' - msg_out ps = int (length (f_Messages f')) - int (length (f_Messages f))"
proof -
  have upd: "frame_ok (f\<lparr>f_Flags := a, f_StreamID := b\<rparr>)" "frame_ok (f\<lparr>f_Flags := a, f_StreamID := b, f_FrameID := c\<rparr>)" for a b c
    using assms(1) by (simp_all add: frame_ok_def)
  show ?thesis
    using assms(2,3) read_payload_ok [OF upd(2) assms(2)]
    by (fastforce simp: read_body_def Let_def upd split: prod.splits if_splits)
qed

lemma frame_ok_tmp: "frame_ok f \<Longrightarrow> length t = 5 \<Longrightarrow> frame_ok (f\<lparr>f_tmp := t\<rparr>)"
  by (simp add: frame_ok_def)

text \<open>The gates of the header, in their order; the first that fails is the error.\<close>

definition header_gate :: "u32 \<Rightarrow> byte list option \<Rightarrow> u32 \<Rightarrow> byte \<Rightarrow> read_error option" where
  "header_gate limit accept len t =
     (if t \<notin> known_types then Some (RdUnexpectedType t)
      else if \<not> acceptsType accept t then Some (RdUnexpectedPeer t)
      else if len < minFrameLen then Some (RdInvalidLength len)
      else if min limit MaxFrameSize < len then Some (RdTooBig len (min limit MaxFrameSize))
      else None)"

definition header_frame :: "Frame \<Rightarrow> bytes \<Rightarrow> Frame" where
  "header_frame f hdr = f\<lparr>f_tmp := hdr, f_Len := be32_val (take 4 hdr), f_Type := hdr ! 4\<rparr>"

lemma Frame_ReadLimit_cases:
  assumes "Frame_ReadLimit f src limit accept ps = (err, f', src', ps')" and "length (f_tmp f) = 5"
  obtains
    (header) got e where "ReadFull 5 src = (got, Some e, src')" "ps' = ps"
      "err = Some (if e = EOF then RdEOF else RdHeader e)" "f' = f\<lparr>f_tmp := got @ drop (length got) (f_tmp f)\<rparr>"
  | (gate) hdr e where "ReadFull 5 src = (hdr, None, src')" "length hdr = 5" "ps' = ps" "f' = header_frame f hdr"
      "header_gate limit accept (f_Len f') (f_Type f') = Some e" "err = Some e"
  | (short) hdr s got e where "ReadFull 5 src = (hdr, None, s)" "length hdr = 5" "ps' = ps" "f' = header_frame f hdr"
      "header_gate limit accept (f_Len f') (f_Type f') = None"
      "ReadFull (unat (f_Len f' - 1)) s = (got, Some e, src')" "err = Some (RdBody e)"
  | (body) hdr s g buf where "ReadFull 5 src = (hdr, None, s)" "length hdr = 5" "g = header_frame f hdr"
      "header_gate limit accept (f_Len g) (f_Type g) = None"
      "ReadFull (unat (f_Len g - 1)) s = (buf, None, src')" "read_body g buf ps = (err, f', ps')"
proof -
  obtain got e s where r: "ReadFull 5 src = (got, e, s)" by (metis prod.exhaust)
  show thesis
  proof (cases e)
    case (Some e')
    with assms(1) r show thesis
      by (intro header [of got e']) (auto simp: Frame_ReadLimit_def)
  next
    case None
    let ?g = "header_frame f got"
    have got: "length got = 5" using ReadFull_length [OF r] None by simp
    obtain buf e2 s2 where r2: "ReadFull (unat (f_Len ?g - 1)) s = (buf, e2, s2)" by (metis prod.exhaust)
    have def: "(if f_Type ?g \<notin> known_types then (Some (RdUnexpectedType (f_Type ?g)), ?g, s, ps)
        else if \<not> acceptsType accept (f_Type ?g) then (Some (RdUnexpectedPeer (f_Type ?g)), ?g, s, ps)
        else if f_Len ?g < minFrameLen then (Some (RdInvalidLength (f_Len ?g)), ?g, s, ps)
        else if min limit MaxFrameSize < f_Len ?g then (Some (RdTooBig (f_Len ?g) (min limit MaxFrameSize)), ?g, s, ps)
        else case e2 of Some e \<Rightarrow> (Some (RdBody e), ?g, s2, ps)
          | None \<Rightarrow> if word_of_nat (length buf) \<noteq> f_Len ?g - 1
              then (Some (RdBodyLength (length buf) (f_Len ?g)), ?g, s2, ps)
              else (case read_body ?g buf ps of (err, f, ps) \<Rightarrow> (err, f, s2, ps))) = (err, f', src', ps')"
      using assms(2) r2 None got
      by (simp only: assms(1) [symmetric])
         (simp add: Frame_ReadLimit_def [folded known_types_def] header_frame_def r Let_def split: option.split)
    show thesis
    proof (cases "header_gate limit accept (f_Len ?g) (f_Type ?g)")
      case (Some e')
      with def have "(Some e', ?g, s, ps) = (err, f', src', ps')"
        by (simp add: header_gate_def split: if_splits)
      with Some r None got show thesis by (intro gate [of got e']) auto
    next
      case gate: None
      show thesis
      proof (cases e2)
        case (Some e')
        with def gate have "(Some (RdBody e'), ?g, s2, ps) = (err, f', src', ps')"
          by (simp add: header_gate_def split: if_splits)
        with Some r r2 None got gate show thesis by (intro short [of got s buf e']) auto
      next
        case e2: None
        have "word_of_nat (length buf) = f_Len ?g - 1"
          using ReadFull_length [OF r2] e2 by simp
        with def gate e2 have "(case read_body ?g buf ps of (err, f, ps) \<Rightarrow> (err, f, s2, ps)) = (err, f', src', ps')"
          by (simp add: header_gate_def split: if_splits)
        with r r2 None e2 got gate show thesis by (intro body [of got s ?g buf]) (auto split: prod.splits)
      qed
    qed
  qed
qed

lemma frame_ok_header: "frame_ok f \<Longrightarrow> length hdr = 5 \<Longrightarrow> frame_ok (header_frame f hdr)"
  by (simp add: frame_ok_def header_frame_def)

lemma Frame_ReadLimit_ok:
  assumes "frame_ok f" and "frame_pool_ok ps"
    and "Frame_ReadLimit f src limit accept ps = (err, f', src', ps')"
  shows "frame_ok f' \<and> frame_pool_ok ps' \<and> frame_out ps' = frame_out ps \<and>
    msg_out ps' - msg_out ps = int (length (f_Messages f')) - int (length (f_Messages f))"
proof -
  have tmp: "length (f_tmp f) = 5" using assms(1) by (simp add: frame_ok_def)
  show ?thesis
    using assms(3) tmp
  proof (cases rule: Frame_ReadLimit_cases)
    case (header got e)
    with assms tmp ReadFull_length [OF header(1)] show ?thesis
      by (simp add: frame_ok_def)
  next
    case (gate hdr e)
    with assms frame_ok_header [of f hdr] show ?thesis by (simp add: header_frame_def)
  next
    case (short hdr s got e)
    with assms frame_ok_header [of f hdr] show ?thesis by (simp add: header_frame_def)
  next
    case (body hdr s g buf)
    with read_body_ok [OF frame_ok_header [OF assms(1) body(2)] assms(2)] show ?thesis
      by (simp add: header_frame_def)
  qed
qed

lemma read_body_header:
  assumes "read_body f buf ps = (err, f', ps')"
  shows "f_Type f' = f_Type f \<and> f_Len f' = f_Len f"
proof -
  have "read_payload g b ps = (err, f', ps') \<Longrightarrow> f_Type f' = f_Type g \<and> f_Len f' = f_Len g" for g b
    by (auto simp: read_payload_def read_hello_items_keep case_prod_beta split: if_splits option.splits sum.splits)
  from this [of "f\<lparr>f_Flags := be32_val (take 4 buf), f_StreamID := fst (Uvarint (drop 4 buf)), f_FrameID := x\<rparr>" for x] assms
  show ?thesis by (fastforce simp: read_body_def Let_def case_prod_beta split: if_splits)
qed

lemma header_gate_None:
  assumes "header_gate limit accept len t = None"
  shows "t \<in> known_types \<and> acceptsType accept t \<and> 5 \<le> unat len \<and> unat len \<le> unat (min limit MaxFrameSize)"
  using assms by (auto simp: header_gate_def minFrameLen_def word_less_nat_alt not_less split: if_splits)

lemma msg_out_AcquireFrame: "msg_out (snd (AcquireFrame ps)) = msg_out ps"
  by (auto simp: AcquireFrame_def NewFrame_def next_pick_def AcquireKV_def Let_def case_prod_beta split: option.splits)

lemma msg_out_ReleaseFrame: "msg_out (ReleaseFrame f ps) = msg_out ps - int (length (f_Messages f))"
  by (simp add: ReleaseFrame_def Frame_Reset_def Messages_Reset_def msg_out_fold_release case_prod_beta)

lemma read_payload_hello:
  assumes "read_payload f buf ps = (None, f', ps')" and "f_Type f \<in> {TypeHAProxyHello, TypeHAProxyDisconnect}"
  shows "\<exists>g. f' = snd (read_hello_items g) \<and> hello_typed (f_KV g) \<and> f_KV f' = f_KV g \<and>
     f_Healthcheck g = f_Healthcheck f \<and> f_MaxFrameSize g = f_MaxFrameSize f \<and> f_EngineID g = f_EngineID f"
proof -
  obtain kv where "KV_Unmarshal (f_KV f) buf = (kv, None)" and
      r: "read_hello_items (f\<lparr>f_KV := kv\<rparr>) = (None, f')"
    using assms by (auto simp: read_payload_def split: prod.splits option.splits)
  from arg_cong [OF r, of fst] arg_cong [OF r, of snd] show ?thesis
    by (intro exI [of _ "f\<lparr>f_KV := kv\<rparr>"]) (use read_hello_items_None [of "f\<lparr>f_KV := kv\<rparr>"] in \<open>auto simp: read_hello_items_keep\<close>)
qed

section \<open>Reading back\<close>

text \<open>A frame that was encoded, read into a clean frame; and the typed fields of a frame that was read.\<close>

lemma frame_read_result:
  assumes "frame_ok f" and "payload_sized f"
    and "Frame_Encode buffer_write f [] = ((n, None), f', wire)"
    and "n - 4 \<le> unat (min limit MaxFrameSize)" and "acceptsType accept (f_Type f)"
    and "frame_clean g"
  shows "\<exists>err g'. Frame_ReadLimit g \<lparr>rd_data = wire @ rest, rd_end = e\<rparr> limit accept ps =
      (err, g', \<lparr>rd_data = rest, rd_end = e\<rparr>, ps) \<and> n = length wire \<and> (err = None \<longleftrightarrow> payload_readable f) \<and>
    f_Type g' = f_Type f \<and> f_Flags g' = f_Flags f \<and> f_StreamID g' = f_StreamID f \<and>
    f_FrameID g' = f_FrameID f \<and> f_Len g' = f_Len f' \<and>
    kv_m (f_KV g') = (if f_Type f \<in> {TypeAgentAck, TypeNotify} then [] else map item_norm (kv_m (f_KV f))) \<and>
    f_Actions g' = (if f_Type f = TypeAgentAck \<and> err = None then map act_norm (f_Actions f) else []) \<and>
    f_Messages g' = []"
proof -
  obtain payload where p: "fst (encode_payload f) = Inr payload" and w: "wire = frame_wire f payload"
      and n: "n = length wire" and len: "f_Len f' = word_of_nat (length (frame_body f payload))"
    using Frame_Encode_split [OF assms(1,3)] by (auto simp: buffer_write_def)
  let ?body = "be32 (f_Flags f) @ put_scratch (f_StreamID f) @ put_scratch (f_FrameID f) @ payload"
  let ?hdr = "word_of_nat (Suc (length ?body)) :: u32"
  have wire: "wire @ rest = be32 ?hdr @ f_Type f # ?body @ rest"
    using w by (simp add: frame_wire_def frame_body_def)
  let ?g = "g\<lparr>f_tmp := be32 ?hdr @ [f_Type f], f_Len := ?hdr, f_Type := f_Type f\<rparr>"
  have "Suc (length ?body) \<le> unat (min limit MaxFrameSize)"
    using assms(4) n w by (simp add: frame_wire_def frame_body_def)
  then have rd: "Frame_ReadLimit g \<lparr>rd_data = wire @ rest, rd_end = e\<rparr> limit accept ps =
      (let (err, g'', ps') = read_body ?g ?body ps in (err, g'', \<lparr>rd_data = rest, rd_end = e\<rparr>, ps'))"
    using Frame_ReadLimit_wire [OF _ known_type_encode [OF p] assms(5), of g ?body limit rest e ps]
      frame_clean_fields(13) [OF assms(6)]
    by (simp only: wire) (simp add: Let_def)
  let ?h = "?g\<lparr>f_Flags := f_Flags f, f_StreamID := f_StreamID f, f_FrameID := f_FrameID f\<rparr>"
  have h: "f_Type ?h = f_Type f" "kv_clean (f_KV ?h)" "f_Messages ?h = []" "f_Actions ?h = []"
    using frame_clean_fields [OF assms(6)] by simp_all
  from read_payload_encode [OF assms(1) p assms(2) h, of ps] rd n len show ?thesis
    by (auto simp: read_body_ids frame_body_def)
qed

lemma frame_read_back:
  assumes "frame_ok f" and "payload_ok f"
    and "Frame_Encode buffer_write f [] = ((n, None), f', wire)"
    and "n - 4 \<le> unat (min limit MaxFrameSize)" and "acceptsType accept (f_Type f)"
    and "frame_clean g"
  shows "\<exists>g'. Frame_ReadLimit g \<lparr>rd_data = wire @ rest, rd_end = e\<rparr> limit accept ps =
      (None, g', \<lparr>rd_data = rest, rd_end = e\<rparr>, ps) \<and> n = length wire \<and>
    f_Type g' = f_Type f \<and> f_StreamID g' = f_StreamID f \<and> f_FrameID g' = f_FrameID f \<and>
    kv_m (f_KV g') = (if f_Type f \<in> {TypeAgentAck, TypeNotify} then [] else map item_norm (kv_m (f_KV f))) \<and>
    f_Messages g' = []"
  using frame_read_result [OF assms(1) _ assms(3-6), of rest e ps] assms(2) by (auto simp: payload_ok_def)

lemma hello_fields_read:
  assumes "frame_clean f" and "Frame_ReadLimit f src limit accept ps = (None, f', src', ps')"
    and "f_Type f' \<in> {TypeHAProxyHello, TypeHAProxyDisconnect}"
  shows "hello_typed (f_KV f') \<and>
    f_Healthcheck f' = (item_as as_bool (gostr ''healthcheck'') (f_KV f') = Some True) \<and>
    f_MaxFrameSize f' = (case item_as as_uint32 (gostr ''max-frame-size'') (f_KV f') of Some u \<Rightarrow> u | None \<Rightarrow> 0) \<and>
    f_EngineID f' = (case item_as as_string (gostr ''engine-id'') (f_KV f') of Some e \<Rightarrow> e | None \<Rightarrow> [])"
proof -
  note clean = frame_clean_fields [OF assms(1)]
  from assms(2) clean(13) obtain hdr buf where b: "read_body (header_frame f hdr) buf ps = (None, f', ps')"
    by (cases rule: Frame_ReadLimit_cases) auto
  have "f_Type (header_frame f hdr) = f_Type f'" using read_body_header [OF b] by simp
  then obtain g where "f' = snd (read_hello_items g)" "hello_typed (f_KV g)" "f_KV f' = f_KV g"
      "f_Healthcheck g = f_Healthcheck f" "f_MaxFrameSize g = f_MaxFrameSize f" "f_EngineID g = f_EngineID f"
    using b assms(3) read_payload_hello
    by (fastforce simp: read_body_def Let_def case_prod_beta header_frame_def split: if_splits)
  with clean read_hello_items_fields [of g] show ?thesis by (auto split: option.splits)
qed

end
