(* ===== verification/Frame_Properties.thy ===== *)
theory Frame_Properties
  imports Frame_Codec
begin

text \<open>
  The properties of the wire format: what \<open>Encode\<close> writes, that \<open>ReadLimit\<close> reads it back,
  how much of a stream a read can take, and that the pools are balanced around it.
\<close>

section \<open>Sample frames\<close>

definition sample_frame :: Frame where
  "sample_frame =
     \<lparr>f_Len = 0, f_Type = TypeAgentDisconnect, f_Flags = flagFin, f_EngineID = [], f_StreamID = 0, f_FrameID = 7,
      f_Healthcheck = False, f_MaxFrameSize = 0,
      f_KV = KV_Add ([111, 107]) (VBool True) NewKV, f_Messages = [], f_Actions = [],
      f_tmp = replicate 5 0, f_varintBuf = replicate 10 0\<rparr>"

definition blank_frame :: Frame where
  "blank_frame =
     \<lparr>f_Len = 0, f_Type = 0, f_Flags = flagFin, f_EngineID = [], f_StreamID = 0, f_FrameID = 0,
      f_Healthcheck = False, f_MaxFrameSize = 0, f_KV = NewKV, f_Messages = [], f_Actions = [],
      f_tmp = replicate 5 0, f_varintBuf = replicate 10 0\<rparr>"

definition empty_frame_pools :: frame_pools where
  "empty_frame_pools = \<lparr>picks = (\<lambda>_. None), kvPool = [], kv_out = 0, messagePool = [], msg_out = 0,
     framePool = [], frame_out = 0\<rparr>"

lemma sample_frame_encode:
  "\<exists>f'. Frame_Encode buffer_write sample_frame [] =
     ((15, None), f', [0, 0, 0, 11, 0x66, 0, 0, 0, 1, 0, 7, 2, 111, 107, 17])"
  by (simp add: Frame_Encode_def sample_frame_def encode_payload_def IsAbort_def IsFin_def flagFin_def
      flagAbort_def frame_type_defs frameLengthPrefix_def PutUvarint_def put_scratch_def KV_Bytes_def
      KV_Add_def NewKV_def MaxLen_def be32_def buffer_write_def)

lemma sample_frame_ok: "frame_ok sample_frame" "payload_sized sample_frame" "frame_clean blank_frame"
  by (simp_all add: frame_ok_def payload_sized_def frame_clean_def sample_frame_def blank_frame_def
      go_simps frame_type_defs td_sized_def KV_Add_def NewKV_def kv_ok_def MaxLen_def)

text \<open>A HAPROXY-HELLO with the single item healthcheck = true.\<close>

definition hello_wire :: bytes where
  "hello_wire = [0, 0, 0, 20, 1, 0, 0, 0, 1, 0, 0, 11, 104, 101, 97, 108, 116, 104, 99, 104, 101, 99, 107, 0x11]"

lemma hello_wire_read:
  "\<exists>f'. Frame_ReadLimit blank_frame \<lparr>rd_data = hello_wire, rd_end = EOF\<rparr> 16384 (Some FromHAProxy) ps =
     (None, f', \<lparr>rd_data = [], rd_end = EOF\<rparr>, ps) \<and> f_Type f' = TypeHAProxyHello \<and>
     f_KV f' = NewKV\<lparr>kv_m := [\<lparr>item_Name = gostr ''healthcheck'', item_Value = VBool True\<rparr>]\<rparr>"
proof -
  let ?kv = "NewKV\<lparr>kv_m := [\<lparr>item_Name = gostr ''healthcheck'', item_Value = VBool True\<rparr>]\<rparr>"
  let ?item = "[11, 104, 101, 97, 108, 116, 104, 99, 104, 101, 99, 107, 0x11] :: bytes"
  have kv: "KV_Unmarshal NewKV ?item = (?kv, None)"
    by (simp add: KV_Unmarshal_def NewKV_def kv_unmarshal_loop.simps Decode.simps td_type_defs Let_def gostr_def)
  have items: "fst (read_hello_items g) = None" if "f_KV g = ?kv" for g
    using that by (simp add: read_hello_items_None hello_typed_def item_typed_def KV_Get_def as_bool_def gostr_def)
  show ?thesis
    by (simp add: Frame_ReadLimit_def hello_wire_def ReadFull_def blank_frame_def frame_type_defs FromHAProxy_def
       Let_def minFrameLen_def MaxFrameSize_val read_body_def read_payload_def kv case_prod_beta items read_hello_items_keep)
qed

lemma fresh_frame: "fst (AcquireFrame empty_frame_pools) = blank_frame"
  by (simp add: AcquireFrame_def NewFrame_def AcquireKV_def next_pick_def empty_frame_pools_def blank_frame_def
      NewMessages_def pool_take.simps Let_def)

section \<open>Properties\<close>

text \<open>C17. A frame reaches the connection in one Write or not at all. When the frame is refused (ABORT
  without FIN, or a payload that cannot be encoded) the writer is never called, its state is
  what it was and the count is 0. Otherwise Write is called exactly once, on FRAME-LENGTH
  followed by the body it counts; Encode succeeds exactly when that Write took every byte
  without an error, and the count it returns is the writer's. The contents of the frame are
  untouched either way.\<close>

theorem Frame_Encode_single_write:
  assumes "frame_ok f" and "Frame_Encode write f dest = ((n, err), f', dest')"
  shows "frame_ok f' \<and> same_contents f' f \<and>
    ((IsAbort f \<and> \<not> IsFin f \<and> err = Some EncAbortWithoutFin \<and> n = 0 \<and> dest' = dest) \<or>
     (\<not> (IsAbort f \<and> \<not> IsFin f) \<and>
       (\<exists>e. fst (encode_payload f) = Inl e \<and> err = Some e \<and> n = 0 \<and> dest' = dest)) \<or>
     (\<not> (IsAbort f \<and> \<not> IsFin f) \<and>
       (\<exists>payload werr. fst (encode_payload f) = Inr payload \<and>
          write (be32 (word_of_nat (length (frame_body f payload))) @ frame_body f payload) dest = ((n, werr), dest') \<and>
          f_Len f' = word_of_nat (length (frame_body f payload)) \<and>
          (err = None \<longleftrightarrow> werr = None \<and> n = 4 + length (frame_body f payload)))))"
  using Frame_Encode_split [OF assms] by (simp add: frame_wire_def)

theorem Frame_Encode_single_write_witness:
  "\<exists>payload f'. Frame_Encode buffer_write sample_frame [] =
      ((15, None), f', be32 (word_of_nat (length (frame_body sample_frame payload))) @ frame_body sample_frame payload)
     \<and> same_contents f' sample_frame"
proof -
  obtain f' where "Frame_Encode buffer_write sample_frame [] =
     ((15, None), f', [0, 0, 0, 11, 0x66, 0, 0, 0, 1, 0, 7, 2, 111, 107, 17])"
    using sample_frame_encode by blast
  note enc = this
  from Frame_Encode_single_write [OF sample_frame_ok(1) enc] obtain payload werr where
    same: "same_contents f' sample_frame" and
    "buffer_write (be32 (word_of_nat (length (frame_body sample_frame payload))) @ frame_body sample_frame payload) [] =
       ((15, werr), [0, 0, 0, 11, 0x66, 0, 0, 0, 1, 0, 7, 2, 111, 107, 17])"
    by auto
  then have "[0, 0, 0, 11, 0x66, 0, 0, 0, 1, 0, 7, 2, 111, 107, 17] =
      be32 (word_of_nat (length (frame_body sample_frame payload))) @ frame_body sample_frame payload"
    by (simp only: buffer_write_def prod.inject append_Nil)
  with enc same show ?thesis by auto
qed

text \<open>C18. What one side encodes the other reads back. Take a frame that encodes into a buffer, with
  strings and values of a size Go can hold, whose length fits the reader's limit and whose type the
  reader accepts. \<open>ReadLimit\<close> into a clean frame takes exactly its bytes from the stream, leaves the
  pools untouched and yields the same type, flags, STREAM-ID, FRAME-ID and FRAME-LENGTH, the same
  items (HELLO and DISCONNECT) and, when it succeeds, the same actions (ACK), up to the canonical form
  of their values. It succeeds exactly when the payload is one the reader admits, which \<open>Encode\<close> does
  not check: an ACK all of whose actions have one of the five known scopes, a HAPROXY-HELLO or
  HAPROXY-DISCONNECT whose healthcheck, max-frame-size and engine-id items have their types, and any
  payload of another frame type.\<close>

theorem Frame_Encode_Read_roundtrip:
  assumes "frame_ok f" and "payload_sized f"
    and "Frame_Encode buffer_write f [] = ((n, None), f', wire)"
    and "n - 4 \<le> unat (min limit MaxFrameSize)" and "acceptsType accept (f_Type f)"
    and "frame_clean g"
  shows "\<exists>err g'. Frame_ReadLimit g \<lparr>rd_data = wire @ rest, rd_end = e\<rparr> limit accept ps =
      (err, g', \<lparr>rd_data = rest, rd_end = e\<rparr>, ps) \<and> n = length wire \<and>
    (err = None \<longleftrightarrow>
       (f_Type f = TypeAgentAck \<longrightarrow> list_all (\<lambda>a. unat (act_Scope a) \<le> 4) (f_Actions f)) \<and>
       (f_Type f \<in> {TypeHAProxyHello, TypeHAProxyDisconnect} \<longrightarrow> hello_typed (f_KV f))) \<and>
    f_Type g' = f_Type f \<and> f_Flags g' = f_Flags f \<and> f_StreamID g' = f_StreamID f \<and>
    f_FrameID g' = f_FrameID f \<and> f_Len g' = f_Len f' \<and>
    kv_m (f_KV g') = (if f_Type f \<in> {TypeAgentAck, TypeNotify} then [] else map item_norm (kv_m (f_KV f))) \<and>
    f_Actions g' = (if f_Type f = TypeAgentAck \<and> err = None then map act_norm (f_Actions f) else []) \<and>
    f_Messages g' = []"
  by (rule frame_read_result [OF assms, unfolded payload_readable_def])

theorem Frame_Encode_Read_roundtrip_witness:
  "\<exists>g'. Frame_ReadLimit blank_frame
       \<lparr>rd_data = [0, 0, 0, 11, 0x66, 0, 0, 0, 1, 0, 7, 2, 111, 107, 17] @ [42], rd_end = EOF\<rparr>
       16384 (Some FromAgent) empty_frame_pools =
      (None, g', \<lparr>rd_data = [42], rd_end = EOF\<rparr>, empty_frame_pools) \<and>
    f_Type g' = TypeAgentDisconnect \<and> f_FrameID g' = 7 \<and>
    kv_m (f_KV g') = [\<lparr>item_Name = [111, 107], item_Value = VBool True\<rparr>]"
proof -
  obtain f' where "Frame_Encode buffer_write sample_frame [] =
     ((15, None), f', [0, 0, 0, 11, 0x66, 0, 0, 0, 1, 0, 7, 2, 111, 107, 17])"
    using sample_frame_encode by blast
  from Frame_Encode_Read_roundtrip [OF sample_frame_ok(1,2) this _ _ sample_frame_ok(3),
      of 16384 "Some FromAgent" "[42]" EOF empty_frame_pools]
  show ?thesis
    by (simp add: MaxFrameSize_val sample_frame_def FromAgent_def frame_type_defs KV_Add_def NewKV_def
        item_norm_def td_norm_def) blast
qed

text \<open>C19. \<open>ReadLimit\<close> never takes more from the connection than the frame it was asked for. A header
  that fails a gate (type, direction, length, limit) costs its five bytes and nothing else: the
  error is the first gate that failed, and no field but the header's is written. A successful
  read takes exactly FRAME-LENGTH and the bytes it counts, of a type the caller accepts and a
  length between 5 and the limit, however large the length a peer declares.\<close>

theorem Frame_ReadLimit_bounded:
  assumes "frame_ok f" and "Frame_ReadLimit f src limit accept ps = (err, f', src', ps')"
  shows "\<exists>got. rd_data src = got @ rd_data src' \<and> rd_end src' = rd_end src \<and>
    length got \<le> max 5 (4 + unat (min limit MaxFrameSize)) \<and>
    (err = None \<longrightarrow> header_gate limit accept (f_Len f') (f_Type f') = None \<and>
       length got = 4 + unat (f_Len f') \<and> take 5 got = be32 (f_Len f') @ [f_Type f']) \<and>
    (5 \<le> length (rd_data src) \<and> header_gate limit accept (f_Len f') (f_Type f') \<noteq> None \<longrightarrow>
       err = header_gate limit accept (f_Len f') (f_Type f') \<and> length got = 5 \<and> ps' = ps \<and>
       f' = header_frame f got)"
proof -
  have tmp: "length (f_tmp f) = 5" using assms(1) by (simp add: frame_ok_def)
  show ?thesis
    using assms(2) tmp
  proof (cases rule: Frame_ReadLimit_cases)
    case (header got e)
    with ReadFull_split [OF header(1)] ReadFull_length [OF header(1)] show ?thesis
      by (intro exI [of _ got]) (auto simp: ReadFull_def split: if_splits)
  next
    case (gate hdr e)
    with ReadFull_split [OF gate(1)] show ?thesis
      by (intro exI [of _ hdr]) simp
  next
    case (short hdr s got e)
    with ReadFull_split [OF short(1)] ReadFull_split [OF short(6)] ReadFull_length [OF short(6)]
      header_gate_None [OF short(5)] show ?thesis
      by (intro exI [of _ "hdr @ got"]) (auto simp: unat_pred)
  next
    case (body hdr s g buf)
    let ?len = "be32_val (take 4 hdr)"
    have g: "f_Len g = ?len" "f_Type g = hdr ! 4" using body(3) by (simp_all add: header_frame_def)
    have f': "f_Len f' = f_Len g" "f_Type f' = f_Type g" using read_body_header [OF body(6)] by simp_all
    have gate: "5 \<le> unat ?len" "unat ?len \<le> unat (min limit MaxFrameSize)"
      using header_gate_None [OF body(4)] g by simp_all
    then have "unat (?len - 1) = unat ?len - 1" by (intro unat_pred) simp
    then have "length buf = unat ?len - 1" using ReadFull_length [OF body(5)] g by simp
    moreover have "hdr = be32 ?len @ [hdr ! 4]"
      using body(2) take_Suc_conv_app_nth [of 4 hdr] by (simp add: be32_be32_val)
    moreover have "rd_data src = (hdr @ buf) @ rd_data src'" "rd_end src' = rd_end src"
      using ReadFull_split [OF body(1)] ReadFull_split [OF body(5)] by simp_all
    ultimately show ?thesis
      using body(2,4) gate f' g by (intro exI [of _ "hdr @ buf"]) simp
  qed
qed

theorem Frame_ReadLimit_bounded_witness:
  "\<exists>f'. Frame_ReadLimit blank_frame \<lparr>rd_data = [0x47, 0x45, 0x54, 0x20, 0x2f, 0x20, 0x48], rd_end = EOF\<rparr> 16384
      (Some FromHAProxy) empty_frame_pools =
      (Some (RdUnexpectedType 0x2f), f', \<lparr>rd_data = [0x20, 0x48], rd_end = EOF\<rparr>, empty_frame_pools) \<and>
    (\<exists>got. [0x47, 0x45, 0x54, 0x20, 0x2f, 0x20, 0x48] = got @ [0x20, 0x48] \<and> f' = header_frame blank_frame got)"
proof -
  obtain f' where r: "Frame_ReadLimit blank_frame
      \<lparr>rd_data = [0x47, 0x45, 0x54, 0x20, 0x2f, 0x20, 0x48], rd_end = EOF\<rparr> 16384 (Some FromHAProxy) empty_frame_pools =
      (Some (RdUnexpectedType 0x2f), f', \<lparr>rd_data = [0x20, 0x48], rd_end = EOF\<rparr>, empty_frame_pools)"
    and t: "f_Type f' = 0x2f"
    by (simp add: Frame_ReadLimit_def ReadFull_def blank_frame_def frame_type_defs Let_def)
  have "frame_ok blank_frame" using sample_frame_ok(3) by (rule frame_clean_fields)
  moreover have "header_gate 16384 (Some FromHAProxy) (f_Len f') (f_Type f') \<noteq> None"
    using t by (simp add: header_gate_def known_types_def frame_type_defs)
  ultimately show ?thesis
    using Frame_ReadLimit_bounded [OF _ r] r by auto
qed

text \<open>C20. Taking a frame from the pool, reading into it whatever the peer sends and releasing it
  leaks nothing and leaves nothing behind: whether or not the read succeeds, the number of frames
  and of messages in use is what it was, the frame comes from the pool clean, and every object
  that goes back to the pools is clean again.\<close>

theorem Frame_read_release_balance:
  assumes "frame_pool_ok ps" and "AcquireFrame ps = (f, ps1)"
    and "Frame_ReadLimit f src limit accept ps1 = (err, f', src', ps2)"
  shows "frame_clean f \<and> frame_pool_ok (ReleaseFrame f' ps2) \<and>
    frame_out (ReleaseFrame f' ps2) = frame_out ps \<and> msg_out (ReleaseFrame f' ps2) = msg_out ps"
proof -
  from AcquireFrame_ok [OF assms(1,2)] have clean: "frame_clean f" and p1: "frame_pool_ok ps1" by simp_all
  from Frame_ReadLimit_ok [OF frame_clean_fields(12) [OF clean] p1 assms(3)] frame_clean_fields(10) [OF clean]
  have ok: "frame_ok f'" "frame_pool_ok ps2" "frame_out ps2 = frame_out ps1"
    and m: "msg_out ps2 = msg_out ps1 + int (length (f_Messages f'))" by simp_all
  have "msg_out ps1 = msg_out ps" "frame_out ps1 = frame_out ps + 1"
    using msg_out_AcquireFrame [of ps] frame_out_simps(1) [of ps] assms(2) by simp_all
  with clean ok m frame_pool.release_ok [OF ok(2,1)] show ?thesis
    by (simp add: frame_out_simps msg_out_ReleaseFrame)
qed

theorem Frame_read_release_balance_witness:
  "\<exists>f' ps2. Frame_ReadLimit (fst (AcquireFrame empty_frame_pools)) \<lparr>rd_data = hello_wire, rd_end = EOF\<rparr>
      16384 (Some FromHAProxy) (snd (AcquireFrame empty_frame_pools)) =
      (None, f', \<lparr>rd_data = [], rd_end = EOF\<rparr>, ps2) \<and>
    frame_pool_ok (ReleaseFrame f' ps2) \<and> frame_out (ReleaseFrame f' ps2) = 0"
proof -
  have ok: "frame_pool_ok empty_frame_pools"
    by (simp add: frame_pool_ok_def msg_pool_ok_def kv_pool_ok_def empty_frame_pools_def)
  from hello_wire_read [of "snd (AcquireFrame empty_frame_pools)"]
  obtain f' where r: "Frame_ReadLimit (fst (AcquireFrame empty_frame_pools)) \<lparr>rd_data = hello_wire, rd_end = EOF\<rparr>
      16384 (Some FromHAProxy) (snd (AcquireFrame empty_frame_pools)) =
      (None, f', \<lparr>rd_data = [], rd_end = EOF\<rparr>, snd (AcquireFrame empty_frame_pools))"
    by (auto simp: fresh_frame)
  from Frame_read_release_balance [OF ok prod.collapse [symmetric] r] r show ?thesis
    by (auto simp: empty_frame_pools_def)
qed

text \<open>C21. The typed fields of a received HELLO or DISCONNECT agree with its items. When the read
  succeeds, each of the items healthcheck, max-frame-size and engine-id that is present has its
  type, and the frame's field holds its value; an absent item leaves the field at zero, since the
  frame came clean. So no field is ever taken from an item of another type, or from an earlier
  frame.\<close>

theorem Frame_ReadLimit_hello_fields:
  assumes "frame_clean f" and "Frame_ReadLimit f src limit accept ps = (None, f', src', ps')"
    and "f_Type f' \<in> {TypeHAProxyHello, TypeHAProxyDisconnect}"
  shows "hello_typed (f_KV f') \<and>
    f_Healthcheck f' = (item_as as_bool (gostr ''healthcheck'') (f_KV f') = Some True) \<and>
    f_MaxFrameSize f' = (case item_as as_uint32 (gostr ''max-frame-size'') (f_KV f') of Some u \<Rightarrow> u | None \<Rightarrow> 0) \<and>
    f_EngineID f' = (case item_as as_string (gostr ''engine-id'') (f_KV f') of Some e \<Rightarrow> e | None \<Rightarrow> [])"
  by (rule hello_fields_read [OF assms])

theorem Frame_ReadLimit_hello_fields_witness:
  "\<exists>f' src' ps'. Frame_ReadLimit blank_frame \<lparr>rd_data = hello_wire, rd_end = EOF\<rparr> 16384 (Some FromHAProxy)
      empty_frame_pools = (None, f', src', ps') \<and> f_Healthcheck f' \<and> f_MaxFrameSize f' = 0"
proof -
  obtain f' where r: "Frame_ReadLimit blank_frame \<lparr>rd_data = hello_wire, rd_end = EOF\<rparr> 16384 (Some FromHAProxy)
      empty_frame_pools = (None, f', \<lparr>rd_data = [], rd_end = EOF\<rparr>, empty_frame_pools)"
    and t: "f_Type f' = TypeHAProxyHello"
    and kv: "f_KV f' = NewKV\<lparr>kv_m := [\<lparr>item_Name = gostr ''healthcheck'', item_Value = VBool True\<rparr>]\<rparr>"
    using hello_wire_read by blast
  have "f_Type f' \<in> {TypeHAProxyHello, TypeHAProxyDisconnect}" using t by simp
  from Frame_ReadLimit_hello_fields [OF sample_frame_ok(3) r this] r show ?thesis
    by (simp add: kv item_as_def KV_Get_def as_bool_def gostr_def)
qed

end
