(* ===== verification/GoStrings.thy ===== *)
theory GoStrings
  imports Prelude "HOL-Library.Sublist"
begin

text \<open>
  The functions of Go's \<open>strings\<close> and \<open>strconv\<close> packages the handshake calls, on strings as byte
  lists. \<open>TrimSpace\<close> removes the white space of Unicode, so it works on the UTF-8 encodings of
  those characters; \<open>Atoi\<close> is the decimal reader for the 64-bit \<open>int\<close>.
\<close>

section \<open>Splitting\<close>

fun split_on :: "byte \<Rightarrow> bytes \<Rightarrow> bytes list" where
  "split_on c [] = [[]]"
| "split_on c (x # xs) =
     (if x = c then [] # split_on c xs
      else case split_on c xs of p # ps \<Rightarrow> (x # p) # ps | [] \<Rightarrow> [[x]])"

fun Cut :: "bytes \<Rightarrow> byte \<Rightarrow> bytes \<times> bytes \<times> bool" where
  "Cut [] c = ([], [], False)"
| "Cut (x # xs) c =
     (if x = c then ([], xs, True)
      else let (before, after, found) = Cut xs c in (x # before, after, found))"

section \<open>TrimSpace\<close>

definition space_encodings :: "bytes list" where
  "space_encodings =
     [[0x09], [0x0A], [0x0B], [0x0C], [0x0D], [0x20], [0xC2, 0x85], [0xC2, 0xA0], [0xE1, 0x9A, 0x80],
      [0xE2, 0x80, 0x80], [0xE2, 0x80, 0x81], [0xE2, 0x80, 0x82], [0xE2, 0x80, 0x83], [0xE2, 0x80, 0x84],
      [0xE2, 0x80, 0x85], [0xE2, 0x80, 0x86], [0xE2, 0x80, 0x87], [0xE2, 0x80, 0x88], [0xE2, 0x80, 0x89],
      [0xE2, 0x80, 0x8A], [0xE2, 0x80, 0xA8], [0xE2, 0x80, 0xA9], [0xE2, 0x80, 0xAF], [0xE2, 0x81, 0x9F],
      [0xE3, 0x80, 0x80]]"

lemma strip_shorter:
  "find (\<lambda>p. p \<noteq> [] \<and> prefix p s) ps = Some p \<Longrightarrow> length s - length p < length s"
proof -
  assume "find (\<lambda>p. p \<noteq> [] \<and> prefix p s) ps = Some p"
  then have "p \<noteq> []" and "prefix p s" by (auto simp: find_Some_iff)
  then have "0 < length p" and "length p \<le> length s" by (simp_all add: prefix_length_le)
  then show ?thesis by linarith
qed

function strip :: "bytes list \<Rightarrow> bytes \<Rightarrow> bytes" where
  "strip ps s =
     (case find (\<lambda>p. p \<noteq> [] \<and> prefix p s) ps of
        Some p \<Rightarrow> strip ps (drop (length p) s)
      | None \<Rightarrow> s)"
  by pat_completeness auto
termination
  by (relation "measure (length \<circ> snd)") (auto dest: strip_shorter)

declare strip.simps [simp del]

definition TrimSpace :: "bytes \<Rightarrow> bytes" where
  "TrimSpace s =
     rev (strip (map rev space_encodings) (rev (strip space_encodings s)))"

section \<open>Atoi and Itoa\<close>

definition is_digit :: "byte \<Rightarrow> bool" where
  "is_digit c \<longleftrightarrow> 48 \<le> unat c \<and> unat c \<le> 57"

fun digits_val :: "nat \<Rightarrow> bytes \<Rightarrow> nat option" where
  "digits_val acc [] = Some acc"
| "digits_val acc (c # cs) =
     (if is_digit c then digits_val (10 * acc + (unat c - 48)) cs else None)"

definition Atoi :: "bytes \<Rightarrow> int option" where
  "Atoi s =
     (let (neg, rest) =
        (case s of c # cs \<Rightarrow> if c = 45 then (True, cs) else if c = 43 then (False, cs) else (False, s)
         | [] \<Rightarrow> (False, []))
      in if rest = [] then None
         else case digits_val 0 rest of
           None \<Rightarrow> None
         | Some n \<Rightarrow>
             if neg then (if int n \<le> 2 ^ 63 then Some (- int n) else None)
             else (if int n < 2 ^ 63 then Some (int n) else None))"

fun nat_digits :: "nat \<Rightarrow> bytes" where
  "nat_digits n = (if n < 10 then [word_of_nat (48 + n)] else nat_digits (n div 10) @ [word_of_nat (48 + n mod 10)])"

declare nat_digits.simps [simp del]

definition Itoa :: "int \<Rightarrow> bytes" where
  "Itoa i = (if i < 0 then 45 # nat_digits (nat (- i)) else nat_digits (nat i))"

section \<open>Lemmas\<close>

lemma digit_byte [simp]: "d < 10 \<Longrightarrow> unat (word_of_nat (48 + d) :: byte) = 48 + d"
  by (simp del: of_nat_add add: unat_word_of_nat_byte)

lemma digits_val_append:
  "digits_val acc (xs @ ys) = (case digits_val acc xs of Some a \<Rightarrow> digits_val a ys | None \<Rightarrow> None)"
  by (induction xs arbitrary: acc) simp_all

lemma digits_val_nat_digits: "digits_val 0 (nat_digits n) = Some n"
proof (induction n rule: nat_digits.induct)
  case (1 n)
  show ?case
  proof (cases "n < 10")
    case True
    then show ?thesis by (simp add: nat_digits.simps [of n] is_digit_def del: of_nat_add)
  next
    case False
    with 1 have "digits_val 0 (nat_digits (n div 10)) = Some (n div 10)" by simp
    with False show ?thesis
      by (simp add: nat_digits.simps [of n] digits_val_append is_digit_def del: of_nat_add)
  qed
qed

lemma nat_digits_all: "c \<in> set (nat_digits n) \<Longrightarrow> is_digit c"
proof (induction n rule: nat_digits.induct)
  case (1 n)
  show ?case
  proof (cases "n < 10")
    case True
    with 1(2) show ?thesis by (simp add: nat_digits.simps [of n] is_digit_def del: of_nat_add)
  next
    case False
    with 1 show ?thesis by (auto simp: nat_digits.simps [of n] is_digit_def simp del: of_nat_add)
  qed
qed

lemma nat_digits_nonempty [simp]: "nat_digits n \<noteq> []"
  by (simp add: nat_digits.simps [of n])

lemma not_digit [simp]: "\<not> is_digit 45" "\<not> is_digit 43" "\<not> is_digit 44" "\<not> is_digit 46" "\<not> is_digit 32"
  by (simp_all add: is_digit_def)

lemma nat_digits_not [simp]: "45 \<notin> set (nat_digits n)" "43 \<notin> set (nat_digits n)"
  "44 \<notin> set (nat_digits n)" "46 \<notin> set (nat_digits n)"
  using nat_digits_all not_digit by blast+

lemma Atoi_nat_digits: "n < 2 ^ 63 \<Longrightarrow> Atoi (nat_digits n) = Some (int n)"
proof -
  assume n: "n < 2 ^ 63"
  obtain c cs where c: "nat_digits n = c # cs" by (cases "nat_digits n") auto
  then have "c \<noteq> 45" "c \<noteq> 43" using nat_digits_not [of n] by auto
  with c n digits_val_nat_digits [of n] show ?thesis by (simp add: Atoi_def)
qed

lemma Atoi_Itoa: "- (2 ^ 63) \<le> i \<Longrightarrow> i < 2 ^ 63 \<Longrightarrow> Atoi (Itoa i) = Some i"
proof (cases "i < 0")
  case False
  assume "i < 2 ^ 63"
  with False Atoi_nat_digits [of "nat i"] show ?thesis by (simp add: Itoa_def nat_less_iff)
next
  case True
  assume "- (2 ^ 63) \<le> i"
  with True digits_val_nat_digits [of "nat (- i)"] show ?thesis
    by (simp add: Itoa_def Atoi_def nat_le_iff)
qed

lemma split_on_none: "c \<notin> set xs \<Longrightarrow> split_on c xs = [xs]"
  by (induction xs) auto

lemma split_on_nonempty [simp]: "split_on c xs \<noteq> []"
  by (induction xs) (auto split: list.splits)

lemma split_on_append: "c \<notin> set xs \<Longrightarrow> split_on c (xs @ c # ys) = xs # split_on c ys"
  by (induction xs) auto

lemma Cut_found: "c \<notin> set xs \<Longrightarrow> Cut (xs @ c # ys) c = (xs, ys, True)"
  by (induction xs) auto

lemma space_not_digit:
  "p \<in> set space_encodings \<Longrightarrow> p \<noteq> [] \<and> \<not> is_digit (hd p) \<and> \<not> is_digit (last p)"
  by (auto simp: space_encodings_def is_digit_def)

lemma prefix_hd: "p \<noteq> [] \<Longrightarrow> prefix p s \<Longrightarrow> hd p = hd s"
  by (auto simp: prefix_def)

lemma find_space:
  assumes "is_digit (hd s)"
  shows "find (\<lambda>p. p \<noteq> [] \<and> prefix p s) space_encodings = None"
    and "find (\<lambda>p. p \<noteq> [] \<and> prefix p s) (map rev space_encodings) = None"
proof -
  show "find (\<lambda>p. p \<noteq> [] \<and> prefix p s) space_encodings = None"
    using assms by (auto simp: find_None_iff dest!: space_not_digit dest: prefix_hd)
  show "find (\<lambda>p. p \<noteq> [] \<and> prefix p s) (map rev space_encodings) = None"
  proof (unfold find_None_iff, rule notI, erule exE)
    fix q
    assume q: "q \<in> set (map rev space_encodings) \<and> q \<noteq> [] \<and> prefix q s"
    then obtain p where "p \<in> set space_encodings" "q = rev p" by auto
    moreover have "hd q = hd s" "q \<noteq> []" using q prefix_hd by blast+
    ultimately
    show False using space_not_digit [of p] assms by (simp add: hd_rev)
  qed
qed

lemma strip_digit:
  assumes "is_digit (hd s)"
  shows "strip space_encodings s = s" and "strip (map rev space_encodings) s = s"
  using find_space [OF assms] by (simp_all add: strip.simps [of _ s])

lemma strip_spaces:
  assumes "s \<noteq> []" and "is_digit (hd s)"
  shows "strip space_encodings (replicate n 32 @ s) = s"
    and "strip (map rev space_encodings) (replicate n 32 @ s) = s"
proof (induction n)
  case (Suc n)
  have "find (\<lambda>p. p \<noteq> [] \<and> prefix p (32 # replicate n 32 @ s)) space_encodings = Some [32]"
    and "find (\<lambda>p. p \<noteq> [] \<and> prefix p (32 # replicate n 32 @ s)) (map rev space_encodings) = Some [32]"
    by (simp_all add: space_encodings_def)
  with Suc show "strip space_encodings (replicate (Suc n) 32 @ s) = s"
    and "strip (map rev space_encodings) (replicate (Suc n) 32 @ s) = s"
    by (simp_all add: strip.simps [of _ "32 # replicate n 32 @ s"])
qed (use strip_digit [OF assms(2)] in simp_all)

text \<open>Trimming removes the padding around a text that starts and ends with a digit.\<close>

lemma TrimSpace_padded:
  assumes "s \<noteq> []" and "is_digit (hd s)" and "is_digit (last s)"
  shows "TrimSpace (replicate a 32 @ s @ replicate b 32) = s"
proof -
  have "strip space_encodings (replicate a 32 @ s @ replicate b 32) = s @ replicate b 32"
    using strip_spaces(1) [of "s @ replicate b 32" a] assms by simp
  moreover have "strip (map rev space_encodings) (replicate b 32 @ rev s) = rev s"
    using strip_spaces(2) [of "rev s" b] assms by (simp add: hd_rev)
  ultimately show ?thesis by (simp add: TrimSpace_def)
qed

text \<open>No white space contains a digit, so trimming keeps the digits.\<close>

lemma strip_digit_kept:
  assumes "\<forall>p \<in> set ps. \<forall>c \<in> set p. \<not> is_digit c" and "\<exists>c \<in> set s. is_digit c"
  shows "\<exists>c \<in> set (strip ps s). is_digit c"
  using assms
proof (induction ps s rule: strip.induct)
  case (1 ps s)
  show ?case
  proof (cases "find (\<lambda>p. p \<noteq> [] \<and> prefix p s) ps")
    case None
    with 1(3) show ?thesis by (simp add: strip.simps [of ps s])
  next
    case (Some p)
    then have "p \<in> set ps" and "prefix p s" by (auto simp: find_Some_iff)
    then obtain t where t: "s = p @ t" by (auto simp: prefix_def)
    with 1(2,3) \<open>p \<in> set ps\<close> have "\<exists>c \<in> set t. is_digit c" by auto
    with 1(1) [OF Some] 1(2) t Some show ?thesis by (simp add: strip.simps [of ps "p @ t"])
  qed
qed

lemma TrimSpace_digit: "\<exists>c \<in> set s. is_digit c \<Longrightarrow> TrimSpace s \<noteq> []"
proof -
  assume s: "\<exists>c \<in> set s. is_digit c"
  have sp: "\<forall>p \<in> set space_encodings. \<forall>c \<in> set p. \<not> is_digit c"
    by (simp add: space_encodings_def is_digit_def)
  from strip_digit_kept [OF sp s] have "\<exists>c \<in> set (rev (strip space_encodings s)). is_digit c" by simp
  moreover from sp have "\<forall>p \<in> set (map rev space_encodings). \<forall>c \<in> set p. \<not> is_digit c" by simp
  ultimately have "\<exists>c \<in> set (strip (map rev space_encodings) (rev (strip space_encodings s))). is_digit c"
    by (intro strip_digit_kept)
  then show ?thesis by (auto simp: TrimSpace_def)
qed

end
