(* ===== verification/Handshake.thy ===== *)
theory Handshake
  imports Frame_Properties GoStrings
begin

text \<open>
  The HELLO handshake of package \<open>worker\<close> (\<open>src/worker/handshake.go\<close> and the constants of
  \<open>src/worker/worker.go\<close>): what the agent requires of a HAPROXY-HELLO, in the order it checks it,
  and what it answers. The text of a refusal quotes the peer's version list with Go's \<open>%q\<close>; that
  quoting (\<open>strconv.Quote\<close>) is the parameter \<open>quote\<close>.
\<close>

section \<open>Constants\<close>

definition capabilityPipelining :: gostring where "capabilityPipelining = gostr ''pipelining''"
definition helloKeyCapabilities :: gostring where "helloKeyCapabilities = gostr ''capabilities''"
definition helloKeyMaxFrameSize :: gostring where "helloKeyMaxFrameSize = gostr ''max-frame-size''"
definition helloKeyVersion :: gostring where "helloKeyVersion = gostr ''version''"

definition statusCodeNormal :: u32 where "statusCodeNormal = 0"
definition statusCodeIOError :: u32 where "statusCodeIOError = 1"
definition statusCodeTimeout :: u32 where "statusCodeTimeout = 2"
definition statusCodeFrameTooBig :: u32 where "statusCodeFrameTooBig = 3"
definition statusCodeInvalidFrame :: u32 where "statusCodeInvalidFrame = 4"
definition statusCodeNoVersion :: u32 where "statusCodeNoVersion = 5"
definition statusCodeNoMaxFrameSize :: u32 where "statusCodeNoMaxFrameSize = 6"
definition statusCodeNoCapabilities :: u32 where "statusCodeNoCapabilities = 7"
definition statusCodeBadVersion :: u32 where "statusCodeBadVersion = 8"
definition statusCodeBadFrameSize :: u32 where "statusCodeBadFrameSize = 9"
definition statusCodeUnknown :: u32 where "statusCodeUnknown = 99"

definition versionMajor :: int where "versionMajor = 2"
definition versionMinor :: int where "versionMinor = 0"
definition minFrameSize :: u32 where "minFrameSize = 256"

definition version :: gostring where
  "version = Itoa versionMajor @ gostr ''.'' @ Itoa versionMinor"

record disconnectError =
  de_code :: u32
  de_message :: gostring

record negotiated =
  neg_maxFrameSize :: u32

definition disconnectError_Error :: "disconnectError \<Rightarrow> gostring" where
  "disconnectError_Error e =
     de_message e @ gostr '' (status code '' @ Itoa (uint (de_code e)) @ gostr '')''"

section \<open>The version list\<close>

definition splitList :: "gostring \<Rightarrow> gostring list" where
  "splitList list =
     (if TrimSpace list = [] then []
      else filter (\<lambda>part. part \<noteq> []) (map TrimSpace (split_on 44 list)))"

definition parseVersion :: "gostring \<Rightarrow> int \<times> int \<times> bool" where
  "parseVersion entry =
     (let (number, fraction, found) = Cut entry 46 in
      if \<not> found then (0, 0, False)
      else case Atoi number of
        None \<Rightarrow> (0, 0, False)
      | Some major \<Rightarrow>
          (case Atoi fraction of
             None \<Rightarrow> (0, 0, False)
           | Some minor \<Rightarrow> (major, minor, True)))"

fun version_loop :: "gostring list \<Rightarrow> bool" where
  "version_loop [] = False"
| "version_loop (entry # entries) =
     (let (major, minor, ok) = parseVersion entry in
      if \<not> ok then version_loop entries
      else if major > versionMajor \<or> (major = versionMajor \<and> minor \<ge> versionMinor) then True
      else version_loop entries)"

definition versionSupported :: "gostring \<Rightarrow> bool" where
  "versionSupported list = version_loop (splitList list)"

section \<open>The negotiation\<close>

definition stringItem :: "Frame \<Rightarrow> gostring \<Rightarrow> gostring \<times> bool" where
  "stringItem f name =
     (let (value, found) = KV_Get (f_KV f) name in
      if \<not> found then ([], False)
      else case as_string value of Some s \<Rightarrow> (s, True) | None \<Rightarrow> ([], False))"

definition negotiate :: "(gostring \<Rightarrow> gostring) \<Rightarrow> Frame \<Rightarrow> disconnectError + negotiated" where
  "negotiate quote f =
     (let (versions, ok) = stringItem f (gostr ''supported-versions'') in
      if \<not> ok then
        Inl \<lparr>de_code = statusCodeNoVersion,
             de_message = gostr ''no usable supported-versions in the HAProxyHello''\<rparr>
      else if \<not> versionSupported versions then
        Inl \<lparr>de_code = statusCodeBadVersion,
             de_message = gostr ''agent speaks SPOP '' @ version @ gostr '', HAProxy announced '' @ quote versions\<rparr>
      else
        let (value, found) = KV_Get (f_KV f) (gostr ''max-frame-size'') in
        if \<not> found then
          Inl \<lparr>de_code = statusCodeNoMaxFrameSize, de_message = gostr ''no max-frame-size in the HAProxyHello''\<rparr>
        else case as_uint32 value of
          None \<Rightarrow>
            Inl \<lparr>de_code = statusCodeNoMaxFrameSize,
                 de_message = gostr ''no usable max-frame-size in the HAProxyHello''\<rparr>
        | Some peerFrameSize \<Rightarrow>
            if peerFrameSize < minFrameSize then
              Inl \<lparr>de_code = statusCodeBadFrameSize,
                   de_message = gostr ''max-frame-size '' @ Itoa (uint peerFrameSize) @ gostr '' is below the '' @
                     Itoa (uint minFrameSize) @ gostr '' byte minimum''\<rparr>
            else
              let (_, ok) = stringItem f (gostr ''capabilities'') in
              if \<not> ok then
                Inl \<lparr>de_code = statusCodeNoCapabilities,
                     de_message = gostr ''no usable capabilities in the HAProxyHello''\<rparr>
              else
                Inr \<lparr>neg_maxFrameSize = (if peerFrameSize > MaxFrameSize then MaxFrameSize else peerFrameSize)\<rparr>)"

section \<open>The checks as a list\<close>

text \<open>What section 3.2.4 asks of a HAPROXY-HELLO, as the list of conditions and the status code
  that reports each; the first that fails decides.\<close>

definition hello_checks :: "Frame \<Rightarrow> (bool \<times> u32) list" where
  "hello_checks f =
     [(item_as as_string (gostr ''supported-versions'') (f_KV f) \<noteq> None, statusCodeNoVersion),
      (\<exists>vs. item_as as_string (gostr ''supported-versions'') (f_KV f) = Some vs \<and> versionSupported vs,
       statusCodeBadVersion),
      (item_as as_uint32 (gostr ''max-frame-size'') (f_KV f) \<noteq> None, statusCodeNoMaxFrameSize),
      (\<exists>u. item_as as_uint32 (gostr ''max-frame-size'') (f_KV f) = Some u \<and> 256 \<le> unat u, statusCodeBadFrameSize),
      (item_as as_string (gostr ''capabilities'') (f_KV f) \<noteq> None, statusCodeNoCapabilities)]"

lemma stringItem_eq:
  "stringItem f name = (case item_as as_string name (f_KV f) of Some s \<Rightarrow> (s, True) | None \<Rightarrow> ([], False))"
  by (auto simp: stringItem_def item_as_def split: prod.splits option.splits)

lemma minFrameSize_less: "u < minFrameSize \<longleftrightarrow> unat u < 256"
  by (simp add: minFrameSize_def word_less_nat_alt)

lemma negotiate_code:
  "(case find (\<lambda>(ok, code). \<not> ok) (hello_checks f) of
      Some (_, code) \<Rightarrow> \<exists>e. negotiate quote f = Inl e \<and> de_code e = code
    | None \<Rightarrow> \<exists>u. item_as as_uint32 (gostr ''max-frame-size'') (f_KV f) = Some u \<and>
        negotiate quote f = Inr \<lparr>neg_maxFrameSize = min u MaxFrameSize\<rparr>)"
proof -
  let ?vs = "item_as as_string (gostr ''supported-versions'') (f_KV f)"
  let ?u = "item_as as_uint32 (gostr ''max-frame-size'') (f_KV f)"
  obtain v ok where get: "KV_Get (f_KV f) (gostr ''max-frame-size'') = (v, ok)" by fastforce
  then have u: "?u = (if ok then as_uint32 v else None)" by (simp add: item_as_def)
  show ?thesis
  proof (cases ?vs)
    case None
    then show ?thesis by (simp add: hello_checks_def negotiate_def stringItem_eq)
  next
    case vs: (Some vs)
    show ?thesis
    proof (cases "versionSupported vs")
      case False
      with vs show ?thesis by (simp add: hello_checks_def negotiate_def stringItem_eq)
    next
      case True
      show ?thesis
      proof (cases ?u)
        case None
        with vs True u get show ?thesis
          by (auto simp: hello_checks_def negotiate_def stringItem_eq split: if_splits)
      next
        case (Some w)
        with u have "ok" and "as_uint32 v = Some w" by (auto split: if_splits)
        with vs True Some get show ?thesis
          by (auto simp: hello_checks_def negotiate_def stringItem_eq minFrameSize_less min_def not_less
              split: option.splits)
      qed
    qed
  qed
qed

section \<open>Reading a version list\<close>

definition version_text :: "nat \<times> nat \<Rightarrow> gostring" where
  "version_text v = nat_digits (fst v) @ 46 # nat_digits (snd v)"

definition padded :: "nat \<times> (nat \<times> nat) \<times> nat \<Rightarrow> gostring" where
  "padded e = (case e of (a, v, b) \<Rightarrow> replicate a 32 @ version_text v @ replicate b 32)"

fun comma_list :: "gostring list \<Rightarrow> gostring" where
  "comma_list [] = []"
| "comma_list [x] = x"
| "comma_list (x # y # xs) = x @ 44 # comma_list (y # xs)"

lemma version_text_ends:
  "version_text v \<noteq> []" "is_digit (hd (version_text v))" "is_digit (last (version_text v))"
  by (auto simp: version_text_def intro: nat_digits_all [OF hd_in_set] nat_digits_all [OF last_in_set])

lemma TrimSpace_entry: "TrimSpace (padded (a, v, b)) = version_text v"
  by (simp add: padded_def TrimSpace_padded version_text_ends)

lemma no_comma: "44 \<notin> set (padded e)"
  by (cases e) (auto simp: padded_def version_text_def)

lemma split_comma_list: "ps \<noteq> [] \<Longrightarrow> \<forall>p \<in> set ps. 44 \<notin> set p \<Longrightarrow> split_on 44 (comma_list ps) = ps"
  by (induction ps rule: comma_list.induct) (simp_all add: split_on_none split_on_append)

lemma parse_version_text:
  "fst v < 2 ^ 63 \<Longrightarrow> snd v < 2 ^ 63 \<Longrightarrow> parseVersion (version_text v) = (int (fst v), int (snd v), True)"
  by (simp add: parseVersion_def version_text_def Cut_found Atoi_nat_digits)

lemma version_loop_texts:
  assumes "\<forall>v \<in> set vs. fst v < 2 ^ 63 \<and> snd v < 2 ^ 63"
  shows "version_loop (map version_text vs) \<longleftrightarrow> (\<exists>v \<in> set vs. 2 \<le> fst v)"
  using assms
  by (induction vs) (auto simp: parse_version_text versionMajor_def versionMinor_def)

lemma splitList_padded:
  assumes "es \<noteq> []"
  shows "splitList (comma_list (map padded es)) = map (\<lambda>(a, v, b). version_text v) es"
proof -
  obtain a v b es' where es: "es = (a, v, b) # es'" using assms by (cases es) auto
  have "\<exists>c \<in> set (comma_list (map padded es)). is_digit c"
    using version_text_ends [of v] unfolding es
    by (cases es') (auto simp: padded_def intro: hd_in_set)
  then have "TrimSpace (comma_list (map padded es)) \<noteq> []" by (rule TrimSpace_digit)
  moreover have "filter (\<lambda>part. part \<noteq> []) (map TrimSpace (map padded es)) = map (\<lambda>(a, v, b). version_text v) es"
    by (induction es) (auto simp: TrimSpace_entry version_text_ends)
  ultimately show ?thesis
    using assms split_comma_list [of "map padded es"] no_comma by (simp add: splitList_def)
qed

section \<open>Properties\<close>

text \<open>C25. A HAPROXY-HELLO is refused with the status code of the first requirement it misses:
  a usable supported-versions (5), a version this agent speaks (8), a usable max-frame-size (6) of
  at least 256 bytes (9) and usable capabilities (7), in that order. It is accepted exactly when
  it meets all of them, and then the frame size agreed is the lower of the peer's and the
  library's own, so it lies between 256 bytes and MaxFrameSize.\<close>

theorem negotiate_first_fault:
  "(case find (\<lambda>(ok, code). \<not> ok) (hello_checks f) of
      Some (_, code) \<Rightarrow> \<exists>e. negotiate quote f = Inl e \<and> de_code e = code
    | None \<Rightarrow> \<exists>u. item_as as_uint32 (gostr ''max-frame-size'') (f_KV f) = Some u \<and>
        negotiate quote f = Inr \<lparr>neg_maxFrameSize = min u MaxFrameSize\<rparr> \<and>
        256 \<le> unat (min u MaxFrameSize) \<and> min u MaxFrameSize \<le> MaxFrameSize)"
proof (cases "find (\<lambda>(ok, code). \<not> ok) (hello_checks f)")
  case None
  then have "\<exists>u. item_as as_uint32 (gostr ''max-frame-size'') (f_KV f) = Some u \<and> 256 \<le> unat u"
    by (simp add: hello_checks_def split: if_splits)
  moreover have "256 \<le> unat MaxFrameSize" by (simp add: MaxFrameSize_val)
  ultimately show ?thesis
    using None negotiate_code [of f quote] by (auto simp: min_def)
next
  case (Some p)
  with negotiate_code [of f quote] show ?thesis by (cases p) simp
qed

text \<open>C26. The version list is read the way section 3.2.5 asks. A list of versions written as
  Major.Minor, separated by commas, with any number of spaces around each, is accepted exactly
  when one of them is at least 2.0.\<close>

theorem versionSupported_list:
  assumes "es \<noteq> []" and "\<forall>(a, v, b) \<in> set es. fst v < 2 ^ 63 \<and> snd v < 2 ^ 63"
  shows "versionSupported (comma_list (map padded es)) \<longleftrightarrow> (\<exists>(a, v, b) \<in> set es. 2 \<le> fst v)"
proof -
  have "versionSupported (comma_list (map padded es)) = version_loop (map version_text (map (\<lambda>(a, v, b). v) es))"
    by (simp add: versionSupported_def splitList_padded [OF assms(1)] case_prod_beta' comp_def)
  also have "\<dots> \<longleftrightarrow> (\<exists>v \<in> set (map (\<lambda>(a, v, b). v) es). 2 \<le> fst v)"
    using assms(2) by (intro version_loop_texts) auto
  finally show ?thesis by (simp add: case_prod_beta')
qed

theorem versionSupported_list_witness:
  "versionSupported (gostr ''1.9,  2.0 '') \<and> \<not> versionSupported (gostr ''1.9'')"
proof -
  have "comma_list (map padded [(0, (1, 9), 0), (2, (2, 0), 1)]) = gostr ''1.9,  2.0 ''"
    "comma_list (map padded [(0, (1, 9), 0)]) = gostr ''1.9''"
    by (simp_all add: padded_def version_text_def gostr_def nat_digits.simps numeral_2_eq_2)
  with versionSupported_list [of "[(0, (1, 9), 0), (2, (2, 0), 1)]"] versionSupported_list [of "[(0, (1, 9), 0)]"]
  show ?thesis by simp
qed

end
