(* ===== verification/Request.thy ===== *)
theory Request
  imports Frame
begin

text \<open>
  Package \<open>request\<close>: what a NOTIFY handler sees, and its pool (\<open>src/request/request.go\<close>). The
  messages are borrowed from the frame: the field is a copy of the frame's list, and releasing a
  request gives no message back to the message pool.
\<close>

section \<open>Requests and their pool\<close>

record Request =
  r_EngineID :: gostring
  r_StreamID :: u64
  r_FrameID :: u64
  r_Messages :: "Message list option"
  r_Actions :: "Action list"

record request_pools = frame_pools +
  requestPool :: "Request list"
  req_out :: int

definition newRequest :: Request where
  "newRequest = \<lparr>r_EngineID = [], r_StreamID = 0, r_FrameID = 0, r_Messages = None, r_Actions = []\<rparr>"

definition Request_Reset :: "Request \<Rightarrow> Request" where
  "Request_Reset req =
     (let req = req\<lparr>r_Messages := None\<rparr>;
          req = req\<lparr>r_Actions := Actions_Reset (r_Actions req)\<rparr>
      in req\<lparr>r_EngineID := [], r_StreamID := 0, r_FrameID := 0\<rparr>)"

definition AcquireRequest :: "'x request_pools_scheme \<Rightarrow> Request \<times> 'x request_pools_scheme" where
  "AcquireRequest ps =
     (let (c, ps) = next_pick ps; ps = ps\<lparr>req_out := req_out ps + 1\<rparr> in
      case pool_take (requestPool ps) c of
        Some (m, rest) \<Rightarrow> (m, ps\<lparr>requestPool := rest\<rparr>)
      | None \<Rightarrow> (newRequest, ps))"

definition ReleaseRequest :: "Request \<Rightarrow> 'x request_pools_scheme \<Rightarrow> 'x request_pools_scheme" where
  "ReleaseRequest m ps =
     ps\<lparr>requestPool := Request_Reset m # requestPool ps, req_out := req_out ps - 1\<rparr>"

section \<open>The pool keeps clean requests\<close>

definition request_pool_ok :: "'x request_pools_scheme \<Rightarrow> bool" where
  "request_pool_ok ps \<longleftrightarrow> frame_pool_ok ps \<and> (\<forall>r \<in> set (requestPool ps). r = newRequest)"

lemma Request_Reset_clean: "Request_Reset req = newRequest"
  by (simp add: Request_Reset_def newRequest_def Actions_Reset_def)

lemma frame_pool_ok_update [go_simps]:
  "frame_pool_ok (ps\<lparr>requestPool := p\<rparr>) = frame_pool_ok (ps :: 'x request_pools_scheme)"
  "frame_pool_ok (ps\<lparr>req_out := i\<rparr>) = frame_pool_ok (ps :: 'x request_pools_scheme)"
  by (simp_all add: frame_pool_ok_def msg_pool_ok_def kv_pool_ok_def)

lemma frame_pool_ok_pick [go_simps]: "frame_pool_ok (snd (next_pick ps)) = frame_pool_ok ps"
  by (simp add: frame_pool_ok_def msg_pool_ok_def kv_pool_ok_def next_pick_def)

lemma request_pool_keep_pick [keep_simps]:
  "requestPool (snd (next_pick ps)) = requestPool (ps :: 'x request_pools_scheme)"
  "req_out (snd (next_pick ps)) = req_out (ps :: 'x request_pools_scheme)"
  by (simp_all add: next_pick_def)

lemma AcquireRequest_ok:
  assumes "request_pool_ok ps" and "AcquireRequest ps = (r, ps')"
  shows "r = newRequest \<and> request_pool_ok ps'"
proof -
  obtain c qs where pick: "next_pick ps = (c, qs)" by fastforce
  have qs: "frame_pool_ok qs" "requestPool qs = requestPool ps"
    using assms(1) pick frame_pool_ok_pick [of ps] request_pool_keep_pick(1) [of ps]
    by (simp_all add: request_pool_ok_def)
  show ?thesis
  proof (cases "pool_take (requestPool ps) c")
    case None
    with assms pick qs show ?thesis
      by (auto simp: AcquireRequest_def request_pool_ok_def go_simps)
  next
    case (Some p)
    with assms pick qs pool_take_Some [of "requestPool ps" c] show ?thesis
      by (cases p) (fastforce simp: AcquireRequest_def request_pool_ok_def go_simps)
  qed
qed

lemma ReleaseRequest_ok: "request_pool_ok ps \<Longrightarrow> request_pool_ok (ReleaseRequest r ps)"
  by (simp add: ReleaseRequest_def request_pool_ok_def Request_Reset_clean go_simps)

interpretation request_pool: reset_pool request_pool_ok AcquireRequest ReleaseRequest
  "\<lambda>r. r = newRequest" "\<lambda>r. True"
  by unfold_locales (rule AcquireRequest_ok, assumption+, rule ReleaseRequest_ok, assumption, simp)

lemma req_out_simps [go_simps]:
  "req_out (snd (AcquireRequest ps)) = req_out ps + 1"
  "req_out (ReleaseRequest r ps) = req_out ps - 1"
  "frame_out (snd (AcquireRequest ps)) = frame_out ps"
  "frame_out (ReleaseRequest r ps) = frame_out ps"
  "msg_out (snd (AcquireRequest ps)) = msg_out ps"
  "msg_out (ReleaseRequest r ps) = msg_out ps"
  by (auto simp: AcquireRequest_def ReleaseRequest_def next_pick_def Let_def split: option.splits)

section \<open>Frame operations on pools that hold requests too\<close>

text \<open>The frame operations leave the request pool alone, so they keep its invariant.\<close>

lemma requestPool_keep [keep_simps]:
  "requestPool (snd (AcquireKV ps)) = requestPool (ps :: 'x request_pools_scheme)"
  "requestPool (snd (AcquireMessage ps)) = requestPool (ps :: 'x request_pools_scheme)"
  "requestPool (snd (ReleaseMessage m ps)) = requestPool (ps :: 'x request_pools_scheme)"
  "req_out (snd (AcquireKV ps)) = req_out (ps :: 'x request_pools_scheme)"
  "req_out (snd (AcquireMessage ps)) = req_out (ps :: 'x request_pools_scheme)"
  "req_out (snd (ReleaseMessage m ps)) = req_out (ps :: 'x request_pools_scheme)"
  by (auto simp: AcquireKV_def ReleaseKV_def next_pick_def ReleaseMessage_def Message_Reset_def
      AcquireMessage_def newMessage_def Let_def split: option.splits)

lemma requestPool_fold_release [keep_simps]:
  "requestPool (fold (\<lambda>m ps. snd (ReleaseMessage m ps)) ms ps) = requestPool (ps :: 'x request_pools_scheme)"
  "req_out (fold (\<lambda>m ps. snd (ReleaseMessage m ps)) ms ps) = req_out (ps :: 'x request_pools_scheme)"
  by (induction ms arbitrary: ps) (simp_all add: keep_simps)

lemma requestPool_frame [keep_simps]:
  "requestPool (snd (AcquireFrame ps)) = requestPool (ps :: 'x request_pools_scheme)"
  "requestPool (ReleaseFrame f ps) = requestPool (ps :: 'x request_pools_scheme)"
  "req_out (snd (AcquireFrame ps)) = req_out (ps :: 'x request_pools_scheme)"
  "req_out (ReleaseFrame f ps) = req_out (ps :: 'x request_pools_scheme)"
  by (auto simp: AcquireFrame_def ReleaseFrame_def NewFrame_def Frame_Reset_def Messages_Reset_def
      keep_simps next_pick_def Let_def case_prod_beta split: option.splits)

lemma AcquireFrame_request_ok:
  assumes "request_pool_ok ps" and "AcquireFrame ps = (f, ps')"
  shows "frame_clean f \<and> request_pool_ok ps'"
  using assms frame_pool.acquire_ok [of ps f ps'] requestPool_frame(1) [of ps]
  by (simp add: request_pool_ok_def)

lemma ReleaseFrame_request_ok:
  "request_pool_ok ps \<Longrightarrow> frame_ok f \<Longrightarrow> request_pool_ok (ReleaseFrame f ps)"
  using frame_pool.release_ok [of ps f] by (simp add: request_pool_ok_def keep_simps)

section \<open>Properties\<close>

text \<open>C22. A request handed out by the pool is a new one whatever was left in those returned to it,
  and its whole life, from acquisition through any handler to release, returns no message to the
  message pool and no frame to the frame pool: the messages a request borrows stay with the
  frame.\<close>

theorem Request_borrows_messages:
  assumes "request_pool_ok ps" and "AcquireRequest ps = (req, ps')"
  shows "req = newRequest \<and> request_pool_ok (ReleaseRequest req' ps') \<and>
    messagePool (ReleaseRequest req' ps') = messagePool ps \<and> msg_out (ReleaseRequest req' ps') = msg_out ps \<and>
    framePool (ReleaseRequest req' ps') = framePool ps \<and> req_out (ReleaseRequest req' ps') = req_out ps"
proof -
  from AcquireRequest_ok [OF assms] have "req = newRequest" and "request_pool_ok ps'" by simp_all
  moreover have "messagePool ps' = messagePool ps \<and> framePool ps' = framePool ps"
    using assms(2) by (auto simp: AcquireRequest_def next_pick_def Let_def split: option.splits)
  ultimately show ?thesis
    using req_out_simps(1,5) [of ps] assms(2) request_pool.release_ok [of ps' req']
    by (simp add: req_out_simps ReleaseRequest_def)
qed

definition used_request :: Request where
  "used_request = \<lparr>r_EngineID = gostr ''engine'', r_StreamID = 7, r_FrameID = 9,
     r_Messages = Some [], r_Actions = [NewUnsetVar ScopeSession (gostr ''x'')]\<rparr>"

definition used_pools :: request_pools where
  "used_pools = ReleaseRequest used_request
     \<lparr>picks = (\<lambda>_. Some 0), kvPool = [], kv_out = 0, messagePool = [], msg_out = 0,
      framePool = [], frame_out = 0, requestPool = [], req_out = 1\<rparr>"

theorem Request_borrows_messages_witness:
  "fst (AcquireRequest used_pools) = newRequest \<and>
   req_out (ReleaseRequest used_request (snd (AcquireRequest used_pools))) = 0"
proof -
  have "request_pool_ok used_pools"
    unfolding used_pools_def
    by (rule ReleaseRequest_ok)
       (simp add: request_pool_ok_def frame_pool_ok_def msg_pool_ok_def kv_pool_ok_def)
  from Request_borrows_messages [OF this prod.collapse [symmetric], of used_request]
  show ?thesis by (simp add: used_pools_def ReleaseRequest_def)
qed

end
