(* ===== verification/Transport.thy ===== *)
theory Transport
  imports GoIO "HOL-Library.Sublist"
begin

text \<open>
  Package \<open>transport\<close> (\<open>src/transport/conn.go\<close>): a connection with serialised writes, a close
  that happens once and deadlines. The \<open>net.Conn\<close> underneath is a record: a log of every Write
  with the number of bytes the socket took, the deadlines, and a script that decides how each
  call turns out (how many bytes a Write takes and the error a call reports), so that a theorem
  for every script covers every behaviour of the peer and of the kernel. A call on a closed
  socket fails. A lock of the source makes the operation it spans one atomic function here:
  \<open>writeMu\<close> spans \<open>WritePayload\<close>, \<open>mu\<close> the accesses to \<open>closed\<close> and \<open>writeTimeout\<close>. \<open>Close\<close>
  can overtake a blocked write; the write then fails with what the script says, which is
  the same as the failing write followed by the close.
\<close>

section \<open>The socket\<close>

type_synonym time = int

record net_conn =
  nc_log :: "(bytes \<times> nat) list"
  nc_closed :: bool
  nc_closes :: nat
  nc_rdeadline :: "time option"
  nc_wdeadline :: "time option"
  nc_script :: "nat \<Rightarrow> nat \<times> io_error option"
  nc_ops :: nat

definition net_next :: "net_conn \<Rightarrow> (nat \<times> io_error option) \<times> net_conn" where
  "net_next nc = (nc_script nc (nc_ops nc), nc\<lparr>nc_ops := Suc (nc_ops nc)\<rparr>)"

definition net_Write :: "net_conn writer" where
  "net_Write b nc =
     (if nc_closed nc then ((0, Some ErrClosed), nc)
      else let ((k, err), nc) = net_next nc; n = min k (length b)
           in ((n, err), nc\<lparr>nc_log := nc_log nc @ [(b, n)]\<rparr>))"

definition net_SetWriteDeadline :: "time option \<Rightarrow> net_conn \<Rightarrow> io_error option \<times> net_conn" where
  "net_SetWriteDeadline t nc =
     (if nc_closed nc then (Some ErrClosed, nc)
      else let ((_, err), nc) = net_next nc
           in (err, if err = None then nc\<lparr>nc_wdeadline := t\<rparr> else nc))"

definition net_SetReadDeadline :: "time option \<Rightarrow> net_conn \<Rightarrow> io_error option \<times> net_conn" where
  "net_SetReadDeadline t nc =
     (if nc_closed nc then (Some ErrClosed, nc)
      else let ((_, err), nc) = net_next nc
           in (err, if err = None then nc\<lparr>nc_rdeadline := t\<rparr> else nc))"

definition net_Close :: "net_conn \<Rightarrow> io_error option \<times> net_conn" where
  "net_Close nc =
     (let nc = nc\<lparr>nc_closes := Suc (nc_closes nc)\<rparr> in
      if nc_closed nc then (Some ErrClosed, nc)
      else let ((_, err), nc) = net_next nc in (err, nc\<lparr>nc_closed := True\<rparr>))"

section \<open>Conn\<close>

record Conn =
  t_conn :: net_conn
  t_closed :: bool
  t_writeTimeout :: time

datatype conn_error = ConnClosed | ConnIO io_error

definition NewConn :: "net_conn \<Rightarrow> Conn" where
  "NewConn c = \<lparr>t_conn = c, t_closed = False, t_writeTimeout = 0\<rparr>"

definition IsClosed :: "Conn \<Rightarrow> bool" where
  "IsClosed c = t_closed c"

definition SetWriteTimeout :: "time \<Rightarrow> Conn \<Rightarrow> Conn" where
  "SetWriteTimeout d c = c\<lparr>t_writeTimeout := d\<rparr>"

definition WriteTimeout :: "Conn \<Rightarrow> time" where
  "WriteTimeout c = t_writeTimeout c"

definition WritePayload ::
  "time \<Rightarrow> (net_conn \<Rightarrow> io_error option \<times> net_conn) \<Rightarrow> Conn \<Rightarrow> conn_error option \<times> Conn" where
  "WritePayload now fn c =
     (if IsClosed c then (Some ConnClosed, c)
      else let d = WriteTimeout c in
        if d > 0 then
          (case net_SetWriteDeadline (Some (now + d)) (t_conn c) of
             (Some err, nc) \<Rightarrow> (Some (ConnIO err), c\<lparr>t_conn := nc\<rparr>)
           | (None, nc) \<Rightarrow>
               let (err, nc) = fn nc; (_, nc) = net_SetWriteDeadline None nc
               in (map_option ConnIO err, c\<lparr>t_conn := nc\<rparr>))
        else let (err, nc) = fn (t_conn c) in (map_option ConnIO err, c\<lparr>t_conn := nc\<rparr>))"

definition write_whole :: "bytes \<Rightarrow> net_conn \<Rightarrow> io_error option \<times> net_conn" where
  "write_whole frame w =
     (let ((n, err), w) = net_Write frame w in
      case err of
        Some e \<Rightarrow> (Some e, w)
      | None \<Rightarrow> if n \<noteq> length frame then (Some ErrShortWrite, w) else (None, w))"

definition WriteFrame :: "time \<Rightarrow> bytes \<Rightarrow> Conn \<Rightarrow> conn_error option \<times> Conn" where
  "WriteFrame now frame c = WritePayload now (write_whole frame) c"

definition Close :: "Conn \<Rightarrow> io_error option \<times> Conn" where
  "Close c =
     (if t_closed c then (None, c)
      else let c = c\<lparr>t_closed := True\<rparr>; (err, nc) = net_Close (t_conn c)
           in (err, c\<lparr>t_conn := nc\<rparr>))"

definition SetReadDeadline :: "time option \<Rightarrow> Conn \<Rightarrow> io_error option \<times> Conn" where
  "SetReadDeadline t c =
     (let (err, nc) = net_SetReadDeadline t (t_conn c) in (err, c\<lparr>t_conn := nc\<rparr>))"

section \<open>Sequences of operations\<close>

datatype conn_op = OpWrite time bytes | OpClose | OpWriteTimeout time | OpReadDeadline "time option"

fun conn_do :: "conn_op \<Rightarrow> Conn \<Rightarrow> Conn" where
  "conn_do (OpWrite now b) c = snd (WriteFrame now b c)"
| "conn_do OpClose c = snd (Close c)"
| "conn_do (OpWriteTimeout d) c = SetWriteTimeout d c"
| "conn_do (OpReadDeadline t) c = snd (SetReadDeadline t c)"

abbreviation conn_run :: "conn_op list \<Rightarrow> Conn \<Rightarrow> Conn" where
  "conn_run ops c \<equiv> fold conn_do ops c"

fun conn_writes :: "conn_op list \<Rightarrow> bytes list" where
  "conn_writes [] = []"
| "conn_writes (OpWrite _ b # ops) = b # conn_writes ops"
| "conn_writes (_ # ops) = conn_writes ops"

section \<open>What each operation does\<close>

definition log_of :: "Conn \<Rightarrow> (bytes \<times> nat) list" where
  "log_of c = nc_log (t_conn c)"

text \<open>The two notions of closed agree and the socket is closed once at most.\<close>

definition conn_ok :: "Conn \<Rightarrow> bool" where
  "conn_ok c \<longleftrightarrow> nc_closed (t_conn c) = t_closed c \<and> nc_closes (t_conn c) = (if t_closed c then 1 else 0)"

lemmas net_defs = net_next_def net_Write_def net_SetWriteDeadline_def net_SetReadDeadline_def net_Close_def

lemma WriteFrame_closed [go_simps]: "t_closed c \<Longrightarrow> WriteFrame now b c = (Some ConnClosed, c)"
  by (simp add: WriteFrame_def WritePayload_def IsClosed_def)

lemma write_whole_open:
  assumes "\<not> nc_closed nc" and "nc_script nc (nc_ops nc) = (k, e)"
  shows "write_whole b nc =
    (if e \<noteq> None then e else if min k (length b) \<noteq> length b then Some ErrShortWrite else None,
     nc\<lparr>nc_ops := Suc (nc_ops nc), nc_log := nc_log nc @ [(b, min k (length b))]\<rparr>)"
  using assms by (simp add: write_whole_def net_Write_def net_next_def Let_def split: option.split)

lemma set_write_deadline_open:
  assumes "\<not> nc_closed nc"
  shows "net_SetWriteDeadline t nc =
    (snd (nc_script nc (nc_ops nc)),
     nc\<lparr>nc_ops := Suc (nc_ops nc),
        nc_wdeadline := (if snd (nc_script nc (nc_ops nc)) = None then t else nc_wdeadline nc)\<rparr>)"
  using assms by (simp add: net_SetWriteDeadline_def net_next_def case_prod_beta)

text \<open>An open connection: the deadline call fails, or the frame is offered to the socket.\<close>

lemma WriteFrame_open:
  assumes "\<not> t_closed c" and "\<not> nc_closed (t_conn c)" and "WriteFrame now b c = (err, c')"
  obtains (deadline) e where "t_writeTimeout c > 0" "err = Some (ConnIO e)"
      "c' = c\<lparr>t_conn := (t_conn c)\<lparr>nc_ops := Suc (nc_ops (t_conn c))\<rparr>\<rparr>"
    | (offered) n dl ops where "n \<le> length b" "err = None \<longrightarrow> n = length b"
      "c' = c\<lparr>t_conn := (t_conn c)\<lparr>nc_ops := ops, nc_log := nc_log (t_conn c) @ [(b, n)], nc_wdeadline := dl\<rparr>\<rparr>"
      "snd (nc_script (t_conn c) (nc_ops (t_conn c) + 2)) = None \<and> nc_wdeadline (t_conn c) = None \<longrightarrow> dl = None"
proof (cases "t_writeTimeout c > 0")
  case False
  obtain k e where "nc_script (t_conn c) (nc_ops (t_conn c)) = (k, e)" by fastforce
  from write_whole_open [OF assms(2) this, of b] False assms(1,3) show ?thesis
    by (intro offered [of "min k (length b)" "nc_wdeadline (t_conn c)" "Suc (nc_ops (t_conn c))"])
       (auto simp: WriteFrame_def WritePayload_def IsClosed_def WriteTimeout_def split: if_splits)
next
  case True
  let ?nc = "t_conn c" and ?nc1 = "(t_conn c)\<lparr>nc_ops := Suc (nc_ops (t_conn c)), nc_wdeadline := Some (now + t_writeTimeout c)\<rparr>"
  note set = set_write_deadline_open [OF assms(2), of "Some (now + t_writeTimeout c)"]
  show ?thesis
  proof (cases "snd (nc_script ?nc (nc_ops ?nc))")
    case (Some e)
    with True set assms(1,3) show ?thesis
      by (intro deadline [of e]) (auto simp: WriteFrame_def WritePayload_def IsClosed_def WriteTimeout_def)
  next
    case None
    obtain k e where "nc_script ?nc1 (nc_ops ?nc1) = (k, e)" by fastforce
    from write_whole_open [OF _ this, of b] assms(2)
    obtain r where w: "write_whole b ?nc1 =
        (r, ?nc1\<lparr>nc_ops := Suc (Suc (nc_ops ?nc)), nc_log := nc_log ?nc @ [(b, min k (length b))]\<rparr>)"
      and r: "r = None \<longrightarrow> min k (length b) = length b"
      by (auto split: if_splits)
    let ?nc2 = "?nc1\<lparr>nc_ops := Suc (Suc (nc_ops ?nc)), nc_log := nc_log ?nc @ [(b, min k (length b))]\<rparr>"
    have "\<not> nc_closed ?nc2" using assms(2) by simp
    note clear = set_write_deadline_open [OF this, of None]
    from True None set clear w r assms(1,3) show ?thesis
      by (intro offered [of "min k (length b)" "nc_wdeadline (snd (net_SetWriteDeadline None ?nc2))"
            "Suc (Suc (Suc (nc_ops ?nc)))"])
         (auto simp: WriteFrame_def WritePayload_def IsClosed_def WriteTimeout_def)
  qed
qed

lemma WriteFrame_cases:
  assumes "WriteFrame now b c = (err, c')" and "conn_ok c"
  obtains (refused) "err \<noteq> None" "log_of c' = log_of c"
    | (written) n where "n \<le> length b" "log_of c' = log_of c @ [(b, n)]" "err = None \<longrightarrow> n = length b"
proof (cases "t_closed c")
  case True
  with assms(1) refused show ?thesis by (auto simp: WriteFrame_closed)
next
  case False
  then have open1: "\<not> nc_closed (t_conn c)" using assms(2) by (simp add: conn_ok_def)
  from False open1 assms(1) refused written show ?thesis
    by (cases rule: WriteFrame_open) (auto simp: log_of_def)
qed

lemma net_keep [keep_simps]:
  "nc_closed (snd (net_SetWriteDeadline t nc)) = nc_closed nc"
  "nc_closes (snd (net_SetWriteDeadline t nc)) = nc_closes nc"
  "nc_rdeadline (snd (net_SetWriteDeadline t nc)) = nc_rdeadline nc"
  "nc_script (snd (net_SetWriteDeadline t nc)) = nc_script nc"
  "nc_closed (snd (write_whole b nc)) = nc_closed nc"
  "nc_closes (snd (write_whole b nc)) = nc_closes nc"
  "nc_rdeadline (snd (write_whole b nc)) = nc_rdeadline nc"
  "nc_script (snd (write_whole b nc)) = nc_script nc"
  by (simp_all add: write_whole_def net_SetWriteDeadline_def net_Write_def net_next_def case_prod_beta
      Let_def split: option.split)

lemma WriteFrame_keep:
  assumes "WriteFrame now b c = (err, c')"
  shows "t_closed c' = t_closed c" "t_writeTimeout c' = t_writeTimeout c"
    "nc_closed (t_conn c') = nc_closed (t_conn c)" "nc_closes (t_conn c') = nc_closes (t_conn c)"
    "nc_rdeadline (t_conn c') = nc_rdeadline (t_conn c)" "nc_script (t_conn c') = nc_script (t_conn c)"
proof -
  have "t_closed (snd (WritePayload now (write_whole b) c)) = t_closed c \<and>
    t_writeTimeout (snd (WritePayload now (write_whole b) c)) = t_writeTimeout c \<and>
    nc_closed (t_conn (snd (WritePayload now (write_whole b) c))) = nc_closed (t_conn c) \<and>
    nc_closes (t_conn (snd (WritePayload now (write_whole b) c))) = nc_closes (t_conn c) \<and>
    nc_rdeadline (t_conn (snd (WritePayload now (write_whole b) c))) = nc_rdeadline (t_conn c) \<and>
    nc_script (t_conn (snd (WritePayload now (write_whole b) c))) = nc_script (t_conn c)"
    by (cases "fst (net_SetWriteDeadline (Some (now + WriteTimeout c)) (t_conn c))")
       (auto simp: WritePayload_def IsClosed_def Let_def case_prod_beta keep_simps)
  with assms show "t_closed c' = t_closed c" "t_writeTimeout c' = t_writeTimeout c"
    "nc_closed (t_conn c') = nc_closed (t_conn c)" "nc_closes (t_conn c') = nc_closes (t_conn c)"
    "nc_rdeadline (t_conn c') = nc_rdeadline (t_conn c)" "nc_script (t_conn c') = nc_script (t_conn c)"
    by (simp_all add: WriteFrame_def)
qed

lemma Close_simps [go_simps]:
  "t_closed (snd (Close c))" "log_of (snd (Close c)) = log_of c"
  "t_writeTimeout (snd (Close c)) = t_writeTimeout c"
  by (simp_all add: Close_def net_defs log_of_def case_prod_beta Let_def)

lemma SetReadDeadline_keep [go_simps]:
  "t_closed (snd (SetReadDeadline t c)) = t_closed c" "log_of (snd (SetReadDeadline t c)) = log_of c"
  by (simp_all add: SetReadDeadline_def net_defs log_of_def case_prod_beta)

lemma conn_ok_do:
  assumes "conn_ok c"
  shows "conn_ok (conn_do op c)"
proof (cases op)
  case (OpWrite now b)
  obtain err c' where w: "WriteFrame now b c = (err, c')" by fastforce
  from WriteFrame_keep [OF w] assms OpWrite w show ?thesis by (simp add: conn_ok_def)
qed (use assms in \<open>auto simp: conn_ok_def Close_def SetWriteTimeout_def SetReadDeadline_def net_defs case_prod_beta\<close>)

lemma conn_ok_run: "conn_ok c \<Longrightarrow> conn_ok (conn_run ops c)"
  by (induction ops arbitrary: c) (simp_all add: conn_ok_do)

lemma conn_do_log:
  assumes "conn_ok c"
  shows "\<exists>xs. log_of (conn_do op c) = log_of c @ xs \<and> subseq (map fst xs) (conn_writes [op]) \<and>
    (t_closed c \<longrightarrow> xs = [] \<and> t_closed (conn_do op c))"
proof (cases op)
  case (OpWrite now b)
  obtain err c' where w: "WriteFrame now b c = (err, c')" by fastforce
  show ?thesis
  proof (cases "t_closed c")
    case True
    with OpWrite show ?thesis by (simp add: go_simps)
  next
    case False
    with OpWrite w show ?thesis by (cases rule: WriteFrame_cases [OF w assms]) auto
  qed
qed (simp_all add: go_simps SetWriteTimeout_def, simp add: log_of_def)

lemma conn_writes_append: "conn_writes (xs @ ys) = conn_writes xs @ conn_writes ys"
  by (induction xs rule: conn_writes.induct) simp_all

lemma conn_run_log:
  assumes "conn_ok c"
  shows "\<exists>xs. log_of (conn_run ops c) = log_of c @ xs \<and> subseq (map fst xs) (conn_writes ops) \<and>
    (t_closed c \<longrightarrow> xs = [])"
  using assms
proof (induction ops arbitrary: c)
  case (Cons op ops)
  from conn_do_log [OF Cons.prems, of op] Cons.IH [OF conn_ok_do [OF Cons.prems]]
  obtain xs ys where
    "log_of (conn_do op c) = log_of c @ xs" "subseq (map fst xs) (conn_writes [op])"
    "t_closed c \<longrightarrow> xs = [] \<and> t_closed (conn_do op c)"
    "log_of (conn_run ops (conn_do op c)) = log_of (conn_do op c) @ ys"
    "subseq (map fst ys) (conn_writes ops)" "t_closed (conn_do op c) \<longrightarrow> ys = []" by blast
  then show ?case
    using conn_writes_append [of "[op]" ops] list_emb_append_mono [of "(=)" "map fst xs" _ "map fst ys"]
    by (intro exI [of _ "xs @ ys"]) auto
qed simp

section \<open>Properties\<close>

text \<open>C23. WriteFrame hands the whole frame to the socket in one Write or hands it nothing. It reports
  success only when the socket took every byte; a short count is an error even when the socket
  reported none. On a closed connection it fails and touches nothing. A write deadline does not
  outlive the payload it was armed for, unless the socket refuses to clear it.\<close>

theorem WriteFrame_whole_or_error:
  assumes "conn_ok c" and "WriteFrame now b c = (err, c')"
  shows "conn_ok c' \<and> (t_closed c \<longrightarrow> err = Some ConnClosed \<and> c' = c) \<and>
    ((err \<noteq> None \<and> log_of c' = log_of c) \<or>
     (\<exists>n \<le> length b. log_of c' = log_of c @ [(b, n)] \<and> (err = None \<longrightarrow> n = length b))) \<and>
    (nc_wdeadline (t_conn c) = None \<and> snd (nc_script (t_conn c) (nc_ops (t_conn c) + 2)) = None \<longrightarrow>
       nc_wdeadline (t_conn c') = None)"
proof -
  have "conn_ok c'" using assms WriteFrame_keep [OF assms(2)] by (simp add: conn_ok_def)
  moreover have "nc_wdeadline (t_conn c) = None \<Longrightarrow>
      snd (nc_script (t_conn c) (nc_ops (t_conn c) + 2)) = None \<Longrightarrow> nc_wdeadline (t_conn c') = None"
  proof (cases "t_closed c")
    case False
    assume dl: "nc_wdeadline (t_conn c) = None" "snd (nc_script (t_conn c) (nc_ops (t_conn c) + 2)) = None"
    have "\<not> nc_closed (t_conn c)" using False assms(1) by (simp add: conn_ok_def)
    from WriteFrame_open [OF False this assms(2)] dl show ?thesis by (cases, auto)
  qed (use assms(2) in \<open>simp add: WriteFrame_closed\<close>)
  moreover have "t_closed c \<Longrightarrow> err = Some ConnClosed \<and> c' = c" using assms(2) by (simp add: go_simps)
  ultimately show ?thesis
    using WriteFrame_cases [OF assms(2,1)] by blast
qed

definition fresh_net :: "(nat \<Rightarrow> nat \<times> io_error option) \<Rightarrow> net_conn" where
  "fresh_net script = \<lparr>nc_log = [], nc_closed = False, nc_closes = 0, nc_rdeadline = None,
     nc_wdeadline = None, nc_script = script, nc_ops = 0\<rparr>"

lemma conn_ok_fresh [simp]: "conn_ok (NewConn (fresh_net script))" "log_of (NewConn (fresh_net script)) = []"
  by (simp_all add: conn_ok_def NewConn_def fresh_net_def log_of_def)

theorem WriteFrame_whole_or_error_witness:
  "fst (WriteFrame 5 [1, 2, 3] (NewConn (fresh_net (\<lambda>_. (2, None))))) = Some (ConnIO ErrShortWrite) \<and>
   (\<exists>n \<le> length [1, 2, 3 :: byte].
      log_of (snd (WriteFrame 5 [1, 2, 3] (NewConn (fresh_net (\<lambda>_. (2, None)))))) = [([1, 2, 3], n)])"
proof -
  let ?c = "NewConn (fresh_net (\<lambda>_. (2, None)))"
  have e: "fst (WriteFrame 5 [1, 2, 3] ?c) = Some (ConnIO ErrShortWrite)"
    "log_of (snd (WriteFrame 5 [1, 2, 3] ?c)) \<noteq> []"
    by (simp_all add: WriteFrame_def WritePayload_def write_whole_def IsClosed_def WriteTimeout_def NewConn_def
        fresh_net_def net_defs log_of_def)
  from WriteFrame_whole_or_error [OF conn_ok_fresh(1) prod.collapse [symmetric], of 5 "[1, 2, 3]" "\<lambda>_. (2, None)"] e
  show ?thesis by auto
qed

text \<open>C24. Close happens once and ends the connection. Whatever operations run on a new connection
  and however the socket behaves, the socket's own Close is called at most once, the frames that
  reached the socket are some of those written, in their order, and once the connection is closed
  no operation adds a byte to what the socket was given.\<close>

theorem Conn_close_once:
  assumes "c = conn_run ops (NewConn (fresh_net script))"
  shows "nc_closes (t_conn c) \<le> 1 \<and> subseq (map fst (log_of c)) (conn_writes ops) \<and>
    (t_closed c \<longrightarrow> t_closed (conn_run ops' c) \<and> log_of (conn_run ops' c) = log_of c \<and>
       nc_closes (t_conn (conn_run ops' c)) = 1)"
proof -
  have ok: "conn_ok c" using assms conn_ok_run conn_ok_fresh(1) by simp
  have "subseq (map fst (log_of c)) (conn_writes ops)"
    using conn_run_log [OF conn_ok_fresh(1), of ops script] assms by auto
  moreover have "t_closed c \<Longrightarrow> t_closed (conn_run ops' c)"
    using ok
  proof (induction ops' arbitrary: c)
    case (Cons op ops')
    then show ?case using conn_do_log [of c op] conn_ok_do [of c op] by auto
  qed simp
  moreover have "t_closed c \<Longrightarrow> log_of (conn_run ops' c) = log_of c"
    using conn_run_log [OF ok, of ops'] by auto
  ultimately show ?thesis
    using ok conn_ok_run [OF ok, of ops'] by (simp add: conn_ok_def)
qed

theorem Conn_close_once_witness:
  "log_of (conn_run [OpWrite 0 [1], OpClose, OpWrite 0 [2], OpClose] (NewConn (fresh_net (\<lambda>_. (9, None))))) = [([1], 1)] \<and>
   nc_closes (t_conn (conn_run [OpWrite 0 [1], OpClose, OpWrite 0 [2], OpClose] (NewConn (fresh_net (\<lambda>_. (9, None)))))) = 1"
proof -
  let ?c = "conn_run [OpWrite 0 [1], OpClose] (NewConn (fresh_net (\<lambda>_. (9, None))))"
  have "t_closed ?c" by (simp add: go_simps)
  moreover have "log_of ?c = [([1], 1)]"
    by (simp add: WriteFrame_def WritePayload_def write_whole_def IsClosed_def WriteTimeout_def NewConn_def fresh_net_def
        net_defs log_of_def Close_def)
  ultimately show ?thesis
    using Conn_close_once [OF refl, of "[OpWrite 0 [1], OpClose]" "\<lambda>_. (9, None)" "[OpWrite 0 [2], OpClose]"]
    by simp
qed

end
