(* ===== verification/Worker.thy ===== *)
theory Worker
  imports Handshake Request Transport
begin

text \<open>
  Package \<open>worker\<close>, its state and operations (\<open>src/worker/worker.go\<close>, \<open>frame_agenthello.go\<close>,
  \<open>frame_disconnect.go\<close>, \<open>frame_notify.go\<close>). An operation that runs under one lock of the source
  is one function here; an operation that can block or be overtaken by another goroutine is cut
  at those points, and \<open>Worker_System\<close> puts the pieces together.

  Correspondence: \<open>w_slots\<close> is the channel \<open>slots\<close>, nil or its capacity and the number of values
  in it; \<open>w_done\<close> is the channel \<open>done\<close>, nil or whether it has been closed; \<open>w_disconnectOnce\<close> says that
  \<open>disconnectOnce\<close> has run; \<open>w_cancelled\<close> that the connection's context is cancelled;
  \<open>w_inflight\<close> is the counter of the WaitGroup. Log lines are left out. Text that the
  source has fmt render from an error value is a parameter, \<open>go_texts\<close>.
\<close>

section \<open>State\<close>

record Timeouts =
  tm_Handshake :: time
  tm_Idle :: time
  tm_Write :: time

record Config =
  cfg_Timeouts :: Timeouts
  cfg_Done :: "bool option"
  cfg_MaxInFlight :: int

record worker =
  w_conn :: Conn
  w_ready :: bool
  w_engineID :: gostring
  w_maxFrameSize :: u32
  w_disconnectOnce :: bool
  w_goodbyeSent :: bool
  w_inflight :: int
  w_slots :: "(nat \<times> nat) option"
  w_timeouts :: Timeouts
  w_cancelled :: bool
  w_done :: "bool option"
  w_pools :: request_pools

record go_texts =
  tx_quote :: "gostring \<Rightarrow> gostring"
  tx_encode :: "encode_error \<Rightarrow> gostring"
  tx_conn :: "conn_error \<Rightarrow> gostring"

text \<open>\<open>Handle\<close> builds the worker and runs it; the pools are the package-level ones.\<close>

definition Handle :: "Conn \<Rightarrow> Config \<Rightarrow> request_pools \<Rightarrow> worker" where
  "Handle conn cfg ps =
     \<lparr>w_conn = conn, w_ready = False, w_engineID = [], w_maxFrameSize = 0, w_disconnectOnce = False,
      w_goodbyeSent = False, w_inflight = 0,
      w_slots = (if cfg_MaxInFlight cfg > 0 then Some (nat (cfg_MaxInFlight cfg), 0) else None),
      w_timeouts = cfg_Timeouts cfg, w_cancelled = False, w_done = cfg_Done cfg, w_pools = ps\<rparr>"

section \<open>Small operations\<close>

definition close :: "worker \<Rightarrow> worker" where
  "close w = w\<lparr>w_conn := snd (Close (w_conn w))\<rparr>"

definition frameLimit :: "worker \<Rightarrow> u32" where
  "frameLimit w = (if w_maxFrameSize w = 0 then MaxFrameSize else w_maxFrameSize w)"

definition readTimeout :: "worker \<Rightarrow> time" where
  "readTimeout w = (if \<not> w_ready w then tm_Handshake (w_timeouts w) else tm_Idle (w_timeouts w))"

definition shuttingDown :: "worker \<Rightarrow> bool" where
  "shuttingDown w \<longleftrightarrow> w_done w = Some True"

text \<open>\<open>acquireSlot\<close> up to its select: \<open>Some\<close> the result when it returns at once. The select itself
  is \<open>acquireSlot_select\<close>: it blocks (\<open>None\<close>) while neither branch is ready, and \<open>pick\<close> is the
  choice Go makes when both are.\<close>

definition acquireSlot :: "worker \<Rightarrow> bool option" where
  "acquireSlot w =
     (if w_slots w = None then Some True
      else if shuttingDown w then Some False
      else None)"

definition acquireSlot_select :: "bool \<Rightarrow> worker \<Rightarrow> (bool \<times> worker) option" where
  "acquireSlot_select pick w =
     (case w_slots w of
        None \<Rightarrow> None
      | Some (cap, held) \<Rightarrow>
          if held < cap \<and> (pick \<or> \<not> shuttingDown w) then Some (True, w\<lparr>w_slots := Some (cap, Suc held)\<rparr>)
          else if shuttingDown w then Some (False, w)
          else None)"

text \<open>Receiving from an empty channel would block; the system keeps a value in it for every
  handler that has still to receive.\<close>

definition releaseSlot :: "worker \<Rightarrow> worker" where
  "releaseSlot w =
     (case w_slots w of None \<Rightarrow> w | Some (cap, held) \<Rightarrow> w\<lparr>w_slots := Some (cap, held - 1)\<rparr>)"

section \<open>Sending\<close>

datatype send_error = SendEncode encode_error | SendConn conn_error

definition sendAgentHello :: "time \<Rightarrow> negotiated \<Rightarrow> worker \<Rightarrow> send_error option \<times> worker" where
  "sendAgentHello now agreed w =
     (let (f, ps) = AcquireFrame (w_pools w);
          f = f\<lparr>f_Type := TypeAgentHello\<rparr>;
          f = f\<lparr>f_FrameID := 0, f_StreamID := 0\<rparr>;
          f = f\<lparr>f_KV := KV_Add helloKeyVersion (VString version) (f_KV f)\<rparr>;
          f = f\<lparr>f_KV := KV_Add helloKeyMaxFrameSize (VUint32 (neg_maxFrameSize agreed)) (f_KV f)\<rparr>;
          f = f\<lparr>f_KV := KV_Add helloKeyCapabilities (VString capabilityPipelining) (f_KV f)\<rparr>;
          ((_, err), f, buf) = Frame_Encode buffer_write f []
      in case err of
           Some e \<Rightarrow> (Some (SendEncode e), w\<lparr>w_pools := ReleaseFrame f ps\<rparr>)
         | None \<Rightarrow>
             let (err, conn) = WriteFrame now buf (w_conn w)
             in (map_option SendConn err, w\<lparr>w_conn := conn, w_pools := ReleaseFrame f ps\<rparr>))"

definition sendAgentDisconnect :: "time \<Rightarrow> u32 \<Rightarrow> gostring \<Rightarrow> worker \<Rightarrow> send_error option \<times> worker" where
  "sendAgentDisconnect now statusCode message w =
     (let w = w\<lparr>w_goodbyeSent := True\<rparr>;
          (f, ps) = AcquireFrame (w_pools w);
          f = f\<lparr>f_Type := TypeAgentDisconnect\<rparr>;
          f = f\<lparr>f_FrameID := 0, f_StreamID := 0\<rparr>;
          f = f\<lparr>f_KV := KV_Add (gostr ''status-code'') (VUint32 statusCode) (f_KV f)\<rparr>;
          f = f\<lparr>f_KV := KV_Add (gostr ''message'') (VString message) (f_KV f)\<rparr>;
          ((_, err), f, buf) = Frame_Encode buffer_write f []
      in case err of
           Some e \<Rightarrow> (Some (SendEncode e), w\<lparr>w_pools := ReleaseFrame f ps\<rparr>)
         | None \<Rightarrow>
             let (err, conn) = WriteFrame now buf (w_conn w)
             in (map_option SendConn err, w\<lparr>w_conn := conn, w_pools := ReleaseFrame f ps\<rparr>))"

definition disconnect :: "time \<Rightarrow> u32 \<Rightarrow> gostring \<Rightarrow> worker \<Rightarrow> worker" where
  "disconnect now statusCode message w =
     (if w_disconnectOnce w then w
      else (snd (sendAgentDisconnect now statusCode message w))\<lparr>w_disconnectOnce := True\<rparr>)"

datatype ack_error = AckAfterDisconnect | AckEncode encode_error | AckTooBig u32 u32 | AckConn conn_error

definition writeFrame :: "time \<Rightarrow> Frame \<Rightarrow> worker \<Rightarrow> ack_error option \<times> Frame \<times> worker" where
  "writeFrame now f w =
     (if w_goodbyeSent w then (Some AckAfterDisconnect, f, w)
      else
        let ((n, err), f, buf) = Frame_Encode buffer_write f [] in
        case err of
          Some e \<Rightarrow> (Some (AckEncode e), f, w)
        | None \<Rightarrow>
            let len = word_of_nat (n - frameLengthPrefix) in
            if len > frameLimit w then (Some (AckTooBig len (frameLimit w)), f, w)
            else let (err, conn) = WriteFrame now buf (w_conn w)
                 in (map_option AckConn err, f, w\<lparr>w_conn := conn\<rparr>))"

section \<open>A NOTIFY goroutine\<close>

text \<open>\<open>processNotifyFrame\<close> in pieces: up to the handler call; from the handler's return through
  the write of the ACK; the report of a failed ACK; and the deferred calls, which run in the reverse of
  their order in the source: the pooled objects, then \<open>releaseSlot\<close>, then \<open>inflight.Done\<close>. Between the
  pieces the handler runs, other goroutines send, the connection can close and the read loop can take
  a slot that has been released.\<close>

definition notify_request :: "Frame \<Rightarrow> worker \<Rightarrow> Request \<times> worker" where
  "notify_request f w =
     (let (req, ps) = AcquireRequest (w_pools w)
      in (req\<lparr>r_StreamID := f_StreamID f, r_FrameID := f_FrameID f, r_EngineID := w_engineID w,
              r_Messages := Some (f_Messages f)\<rparr>,
          w\<lparr>w_pools := ps\<rparr>))"

definition notify_ack :: "time \<Rightarrow> Frame \<Rightarrow> Request \<Rightarrow> worker \<Rightarrow> ack_error option \<times> Frame \<times> worker" where
  "notify_ack now f req w =
     (let (ack, ps) = AcquireFrame (w_pools w);
          ack = ack\<lparr>f_Type := TypeAgentAck, f_StreamID := f_StreamID f, f_FrameID := f_FrameID f,
                    f_Actions := r_Actions req\<rparr>
      in writeFrame now ack (w\<lparr>w_pools := ps\<rparr>))"

definition too_big_text :: "u32 \<Rightarrow> u32 \<Rightarrow> gostring" where
  "too_big_text len limit =
     gostr ''frame is too big: '' @ Itoa (uint len) @ gostr '' exceeds the '' @ Itoa (uint limit) @
     gostr '' byte maximum''"

definition notify_failed :: "go_texts \<Rightarrow> time \<Rightarrow> ack_error \<Rightarrow> worker \<Rightarrow> worker" where
  "notify_failed tx now err w =
     (case err of
        AckTooBig len limit \<Rightarrow> disconnect now statusCodeFrameTooBig (too_big_text len limit) w
      | AckEncode e \<Rightarrow> disconnect now statusCodeUnknown (gostr ''cannot marshal frame: '' @ tx_encode tx e) w
      | AckConn e \<Rightarrow> disconnect now statusCodeIOError (tx_conn tx e) w
      | AckAfterDisconnect \<Rightarrow> w)"

definition notify_release :: "Frame \<Rightarrow> Frame \<Rightarrow> Request \<Rightarrow> worker \<Rightarrow> worker" where
  "notify_release f ack req w =
     (let ps = ReleaseFrame ack (w_pools w);
          ps = ReleaseRequest req ps;
          ps = ReleaseFrame f ps
      in w\<lparr>w_pools := ps\<rparr>)"

definition notify_done :: "worker \<Rightarrow> worker" where
  "notify_done w = w\<lparr>w_inflight := w_inflight w - 1\<rparr>"

section \<open>The read loop\<close>

text \<open>\<open>armReadDeadline\<close>: the first check, the arming and the check after it. A drain can begin
  between any two of them.\<close>

definition arm_expired :: "time \<Rightarrow> worker \<Rightarrow> io_error option \<times> worker" where
  "arm_expired now w =
     (let (err, conn) = SetReadDeadline (Some now) (w_conn w) in (err, w\<lparr>w_conn := conn\<rparr>))"

definition arm_set :: "time \<Rightarrow> worker \<Rightarrow> io_error option \<times> worker" where
  "arm_set now w =
     (let d = readTimeout w;
          (err, conn) = SetReadDeadline (if d > 0 then Some (now + d) else None) (w_conn w)
      in (err, w\<lparr>w_conn := conn\<rparr>))"

definition arm_recheck :: "time \<Rightarrow> worker \<Rightarrow> io_error option \<times> worker" where
  "arm_recheck now w = (if shuttingDown w then arm_expired now w else (None, w))"

definition armReadDeadline :: "time \<Rightarrow> worker \<Rightarrow> io_error option \<times> worker" where
  "armReadDeadline now w =
     (if shuttingDown w then arm_expired now w
      else case arm_set now w of
        (Some err, w) \<Rightarrow> (Some err, w)
      | (None, w) \<Rightarrow> arm_recheck now w)"

datatype run_error =
    RunDeadline io_error
  | RunRead read_error
  | RunAlreadyReady
  | RunHandshake disconnectError
  | RunSendHello send_error
  | RunDisconnectNotReady
  | RunSendDisconnect send_error
  | RunNotifyNotReady
  | RunFrameType byte

datatype loop_out = Next | Return "run_error option" | Drain | NeedSlot

definition deadline_exceeded :: "read_error \<Rightarrow> bool" where
  "deadline_exceeded err \<longleftrightarrow> err = RdHeader ErrDeadlineExceeded \<or> err = RdBody ErrDeadlineExceeded"

text \<open>What \<open>run\<close> does with a read that failed, its frame released already.\<close>

definition read_failed :: "time \<Rightarrow> read_error \<Rightarrow> worker \<Rightarrow> loop_out \<times> worker" where
  "read_failed now err w =
     (if err \<noteq> RdEOF then
        if deadline_exceeded err \<and> shuttingDown w then (Drain, w)
        else
          (Return (Some (RunRead err)),
           if deadline_exceeded err then disconnect now statusCodeTimeout (gostr ''timeout waiting for a frame'') w
           else case err of
             RdTooBig len limit \<Rightarrow> disconnect now statusCodeFrameTooBig (too_big_text len limit) w
           | _ \<Rightarrow> disconnect now statusCodeInvalidFrame (gostr ''invalid frame received'') w)
      else (Return None, w))"

text \<open>\<open>dispatch\<close> up to the slot of a NOTIFY, which is \<open>NeedSlot\<close>; no other outcome transfers the
  frame.\<close>

definition dispatch :: "go_texts \<Rightarrow> time \<Rightarrow> Frame \<Rightarrow> worker \<Rightarrow> loop_out \<times> worker" where
  "dispatch tx now f w =
     (if f_Type f = TypeHAProxyHello then
        if w_ready w then
          (Return (Some RunAlreadyReady),
           disconnect now statusCodeInvalidFrame
             (gostr ''unexpected HAProxyHello frame, handshake already completed'') w)
        else case negotiate (tx_quote tx) f of
          Inl e \<Rightarrow> (Return (Some (RunHandshake e)), disconnect now (de_code e) (de_message e) w)
        | Inr agreed \<Rightarrow>
            let w = w\<lparr>w_maxFrameSize := neg_maxFrameSize agreed\<rparr>;
                w = w\<lparr>w_engineID := f_EngineID f\<rparr>
            in (case sendAgentHello now agreed w of
                  (Some err, w) \<Rightarrow> (Return (Some (RunSendHello err)), w)
                | (None, w) \<Rightarrow>
                    if f_Healthcheck f then (Return None, w) else (Next, w\<lparr>w_ready := True\<rparr>))
      else if f_Type f = TypeHAProxyDisconnect then
        if \<not> w_ready w then
          (Return (Some RunDisconnectNotReady),
           disconnect now statusCodeInvalidFrame (gostr ''unexpected HAProxyDisconnect frame before the handshake'') w)
        else case sendAgentDisconnect now statusCodeNormal (gostr ''connection closed by server'') w of
          (Some err, w) \<Rightarrow> (Return (Some (RunSendDisconnect err)), w)
        | (None, w) \<Rightarrow> (Return None, w)
      else if f_Type f = TypeNotify then
        if \<not> w_ready w then
          (Return (Some RunNotifyNotReady),
           disconnect now statusCodeInvalidFrame (gostr ''unexpected Notify frame before the handshake'') w)
        else (NeedSlot, w)
      else
        (Return (Some (RunFrameType (f_Type f))),
         disconnect now statusCodeInvalidFrame (gostr ''unexpected frame type'') w))"

text \<open>\<open>drain\<close> once the WaitGroup has reached zero.\<close>

definition drain :: "time \<Rightarrow> worker \<Rightarrow> worker" where
  "drain now w = disconnect now statusCodeNormal (gostr ''agent is shutting down'') w"

section \<open>What a send does\<close>

text \<open>The header of an encoded frame, read back from its bytes.\<close>

definition wire_len :: "bytes \<Rightarrow> u32" where
  "wire_len b = be32_val (take 4 b)"

definition wire_type :: "bytes \<Rightarrow> byte" where
  "wire_type b = b ! 4"

definition wire_ids :: "bytes \<Rightarrow> u64 \<times> u64" where
  "wire_ids b =
     (let (s, n) = Uvarint (drop 9 b); (i, _) = Uvarint (drop (nat n) (drop 9 b)) in (s, i))"

lemma wire_frame [simp]:
  "wire_len (frame_wire f p) = word_of_nat (length (frame_body f p))"
  "wire_type (frame_wire f p) = f_Type f"
  "wire_ids (frame_wire f p) = (f_StreamID f, f_FrameID f)"
proof -
  show "wire_len (frame_wire f p) = word_of_nat (length (frame_body f p))"
    by (simp add: wire_len_def frame_wire_def)
  show "wire_type (frame_wire f p) = f_Type f"
    by (simp add: wire_type_def frame_wire_def frame_body_def nth_append)
  have "drop 9 (frame_wire f p) = put_scratch (f_StreamID f) @ put_scratch (f_FrameID f) @ p"
    by (simp add: frame_wire_def frame_body_def)
  then show "wire_ids (frame_wire f p) = (f_StreamID f, f_FrameID f)"
    by (simp add: wire_ids_def uv.get_put)
qed

text \<open>A connection that was given at most one more frame, and pools with as many objects in use
  as before.\<close>

definition conn_grows :: "(bytes \<Rightarrow> bool) \<Rightarrow> Conn \<Rightarrow> Conn \<Rightarrow> bool" where
  "conn_grows P c c' \<longleftrightarrow> conn_ok c' \<and> t_closed c' = t_closed c \<and>
     nc_rdeadline (t_conn c') = nc_rdeadline (t_conn c) \<and>
     (log_of c' = log_of c \<or> (\<exists>b n. log_of c' = log_of c @ [(b, n)] \<and> P b))"

definition pools_keep :: "request_pools \<Rightarrow> request_pools \<Rightarrow> bool" where
  "pools_keep ps ps' \<longleftrightarrow> request_pool_ok ps' \<and> frame_out ps' = frame_out ps \<and> msg_out ps' = msg_out ps \<and>
     req_out ps' = req_out ps"

lemma conn_grows_refl: "conn_ok c \<Longrightarrow> conn_grows P c c"
  by (simp add: conn_grows_def)

lemma conn_grows_mono: "conn_grows P c c' \<Longrightarrow> (\<And>b. P b \<Longrightarrow> Q b) \<Longrightarrow> conn_grows Q c c'"
  by (auto simp: conn_grows_def)

lemma WriteFrame_grows:
  assumes "conn_ok c" and "WriteFrame now b c = (err, c')" and "P b"
  shows "conn_grows P c c'"
  using WriteFrame_cases [OF assms(2,1)] WriteFrame_keep [OF assms(2)] assms
  by (cases, auto simp: conn_grows_def conn_ok_def)

lemma encode_buffer:
  assumes "frame_ok f" and "Frame_Encode buffer_write f [] = ((n, err), f', buf)"
  shows "frame_ok f' \<and> f_Messages f' = f_Messages f \<and>
    (err = None \<longrightarrow> n = length buf \<and> (\<exists>p. buf = frame_wire f p))"
  using Frame_Encode_split [OF assms] by (auto simp: same_contents_def buffer_write_def)

lemma release_keeps:
  assumes "request_pool_ok ps" and "AcquireFrame ps = (f, ps1)" and "frame_ok f'" and "f_Messages f' = []"
  shows "pools_keep ps (ReleaseFrame f' ps1)"
  using AcquireFrame_request_ok [OF assms(1,2)] ReleaseFrame_request_ok [of ps1 f'] assms
    frame_out_simps(1) [of ps] msg_out_AcquireFrame [of ps] requestPool_frame(3) [of ps]
  by (simp add: pools_keep_def frame_out_simps msg_out_ReleaseFrame requestPool_frame)

text \<open>The shape shared by the two control frames: a clean frame from the pool, filled in, encoded,
  written and released.\<close>

lemma control_frame_sent:
  assumes "request_pool_ok ps" and "conn_ok c" and "AcquireFrame ps = (f, ps1)"
    and f': "frame_ok f'" "f_Messages f' = []"
    and enc: "Frame_Encode buffer_write f' [] = ((n, err), f'', buf)"
  shows "pools_keep ps (ReleaseFrame f'' ps1)"
    and "err = None \<Longrightarrow> WriteFrame now buf c = (e, c') \<Longrightarrow> conn_grows (\<lambda>b. wire_type b = f_Type f') c c'"
proof -
  from encode_buffer [OF f'(1) enc] f'(2) have e: "frame_ok f''" "f_Messages f'' = []" by simp_all
  from release_keeps [OF assms(1,3) e] show "pools_keep ps (ReleaseFrame f'' ps1)" .
  assume "err = None" and w: "WriteFrame now buf c = (e, c')"
  then have "wire_type buf = f_Type f'" using encode_buffer [OF f'(1) enc] by auto
  then show "conn_grows (\<lambda>b. wire_type b = f_Type f') c c'" by (rule WriteFrame_grows [OF assms(2) w])
qed

lemma frame_ok_fill [go_simps]:
  "frame_ok (f\<lparr>f_Type := t\<rparr>) = frame_ok f" "frame_ok (f\<lparr>f_StreamID := i\<rparr>) = frame_ok f"
  "frame_ok (f\<lparr>f_FrameID := i\<rparr>) = frame_ok f" "frame_ok (f\<lparr>f_Actions := a\<rparr>) = frame_ok f"
  "frame_ok (f\<lparr>f_KV := KV_Add k v (f_KV f)\<rparr>) = frame_ok f"
  by (simp_all add: frame_ok_def go_simps)

lemma sendAgentHello_spec:
  assumes "request_pool_ok (w_pools w)" and "conn_ok (w_conn w)" and "sendAgentHello now agreed w = (err, w')"
  shows "\<exists>c ps. w' = w\<lparr>w_conn := c, w_pools := ps\<rparr> \<and>
    conn_grows (\<lambda>b. wire_type b = TypeAgentHello) (w_conn w) c \<and> pools_keep (w_pools w) ps"
proof -
  obtain f ps1 where a: "AcquireFrame (w_pools w) = (f, ps1)" by fastforce
  let ?f = "f\<lparr>f_Type := TypeAgentHello, f_FrameID := 0, f_StreamID := 0,
    f_KV := KV_Add helloKeyCapabilities (VString capabilityPipelining)
      (KV_Add helloKeyMaxFrameSize (VUint32 (neg_maxFrameSize agreed)) (KV_Add helloKeyVersion (VString version) (f_KV f)))\<rparr>"
  obtain n e f'' buf where enc: "Frame_Encode buffer_write ?f [] = ((n, e), f'', buf)" by (metis prod.exhaust)
  have f: "frame_ok ?f" "f_Messages ?f = []"
    using AcquireFrame_request_ok [OF assms(1) a] by (simp_all add: frame_clean_fields frame_ok_def go_simps)
  note sent = control_frame_sent [OF assms(1,2) a f enc]
  obtain e2 c2 where w: "WriteFrame now buf (w_conn w) = (e2, c2)" by fastforce
  show ?thesis
  proof (cases e)
    case None
    with assms(3) a enc w have "w' = w\<lparr>w_conn := c2, w_pools := ReleaseFrame f'' ps1\<rparr>"
      by (simp add: sendAgentHello_def)
    with sent(1) sent(2) [OF None w] show ?thesis by (intro exI [of _ c2] exI [of _ "ReleaseFrame f'' ps1"]) simp
  next
    case (Some e')
    with assms(3) a enc have "w' = w\<lparr>w_conn := w_conn w, w_pools := ReleaseFrame f'' ps1\<rparr>"
      by (simp add: sendAgentHello_def)
    with sent(1) conn_grows_refl [OF assms(2)] show ?thesis by blast
  qed
qed

lemma sendAgentDisconnect_spec:
  assumes "request_pool_ok (w_pools w)" and "conn_ok (w_conn w)"
    and "sendAgentDisconnect now code msg w = (err, w')"
  shows "\<exists>c ps. w' = w\<lparr>w_goodbyeSent := True, w_conn := c, w_pools := ps\<rparr> \<and>
    conn_grows (\<lambda>b. wire_type b = TypeAgentDisconnect) (w_conn w) c \<and> pools_keep (w_pools w) ps"
proof -
  obtain f ps1 where a: "AcquireFrame (w_pools w) = (f, ps1)" by fastforce
  let ?f = "f\<lparr>f_Type := TypeAgentDisconnect, f_FrameID := 0, f_StreamID := 0,
    f_KV := KV_Add (gostr ''message'') (VString msg) (KV_Add (gostr ''status-code'') (VUint32 code) (f_KV f))\<rparr>"
  obtain n e f'' buf where enc: "Frame_Encode buffer_write ?f [] = ((n, e), f'', buf)" by (metis prod.exhaust)
  have f: "frame_ok ?f" "f_Messages ?f = []"
    using AcquireFrame_request_ok [OF assms(1) a] by (simp_all add: frame_clean_fields frame_ok_def go_simps)
  note sent = control_frame_sent [OF assms(1,2) a f enc]
  obtain e2 c2 where w: "WriteFrame now buf (w_conn w) = (e2, c2)" by fastforce
  show ?thesis
  proof (cases e)
    case None
    with assms(3) a enc w have "w' = w\<lparr>w_goodbyeSent := True, w_conn := c2, w_pools := ReleaseFrame f'' ps1\<rparr>"
      by (simp add: sendAgentDisconnect_def)
    with sent(1) sent(2) [OF None w] show ?thesis by (intro exI [of _ c2] exI [of _ "ReleaseFrame f'' ps1"]) simp
  next
    case (Some e')
    with assms(3) a enc have "w' = w\<lparr>w_goodbyeSent := True, w_conn := w_conn w, w_pools := ReleaseFrame f'' ps1\<rparr>"
      by (simp add: sendAgentDisconnect_def)
    with sent(1) conn_grows_refl [OF assms(2)] show ?thesis by blast
  qed
qed

text \<open>\<open>disconnect\<close> leaves the goodbye latch set, whether or not it was the caller that sent.\<close>

lemma disconnect_spec:
  assumes "request_pool_ok (w_pools w)" and "conn_ok (w_conn w)"
  obtains (already) "w_disconnectOnce w" "disconnect now code msg w = w"
    | (first) c ps where "\<not> w_disconnectOnce w"
      "disconnect now code msg w =
         w\<lparr>w_goodbyeSent := True, w_conn := c, w_pools := ps, w_disconnectOnce := True\<rparr>"
      "conn_grows (\<lambda>b. wire_type b = TypeAgentDisconnect) (w_conn w) c" "pools_keep (w_pools w) ps"
proof (cases "w_disconnectOnce w")
  case True
  then show ?thesis by (intro already) (simp_all add: disconnect_def)
next
  case False
  obtain err w' where "sendAgentDisconnect now code msg w = (err, w')" by fastforce
  with sendAgentDisconnect_spec [OF assms this] False show ?thesis
    by (auto simp: disconnect_def intro: first)
qed

text \<open>The ACK: the write happens only while no goodbye has been sent, for a frame within the limit,
  with the identifiers of the frame given.\<close>

lemma writeFrame_spec:
  assumes "frame_ok f" and "conn_ok (w_conn w)" and "writeFrame now f w = (err, f', w')"
  shows "\<exists>c. w' = w\<lparr>w_conn := c\<rparr> \<and> frame_ok f' \<and> f_Messages f' = f_Messages f \<and>
    conn_grows (\<lambda>b. \<not> w_goodbyeSent w \<and> wire_type b = f_Type f \<and> wire_ids b = (f_StreamID f, f_FrameID f) \<and>
      wire_len b \<le> frameLimit w) (w_conn w) c"
proof (cases "w_goodbyeSent w")
  case True
  then show ?thesis
    using assms conn_grows_refl [OF assms(2)] by (intro exI [of _ "w_conn w"]) (simp add: writeFrame_def)
next
  case False
  obtain n e g buf where enc: "Frame_Encode buffer_write f [] = ((n, e), g, buf)" by (metis prod.exhaust)
  note e = encode_buffer [OF assms(1) enc]
  obtain e2 c2 where w: "WriteFrame now buf (w_conn w) = (e2, c2)" by fastforce
  show ?thesis
  proof (cases "e = None \<and> \<not> word_of_nat (n - frameLengthPrefix) > frameLimit w")
    case True
    then obtain p where p: "buf = frame_wire f p" "n = length buf" using e by auto
    have "wire_len buf = word_of_nat (n - frameLengthPrefix)"
      using p by (simp add: frame_wire_def wire_len_def frameLengthPrefix_def)
    with True p False have "conn_grows (\<lambda>b. \<not> w_goodbyeSent w \<and> wire_type b = f_Type f \<and>
        wire_ids b = (f_StreamID f, f_FrameID f) \<and> wire_len b \<le> frameLimit w) (w_conn w) c2"
      by (intro WriteFrame_grows [OF assms(2) w]) (simp add: not_less)
    moreover have "w' = w\<lparr>w_conn := c2\<rparr> \<and> f' = g"
      using True False enc w assms(3) by (auto simp: writeFrame_def Let_def)
    ultimately show ?thesis using e by blast
  next
    case no: False
    then have "w' = w \<and> f' = g"
      using False enc assms(3) by (auto simp: writeFrame_def Let_def split: option.splits if_splits)
    with e conn_grows_refl [OF assms(2)] show ?thesis by (intro exI [of _ "w_conn w"]) simp
  qed
qed

lemma writeFrame_after_goodbye:
  "w_goodbyeSent w \<Longrightarrow> writeFrame now f w = (Some AckAfterDisconnect, f, w)"
  by (simp add: writeFrame_def)

end
