(* ===== verification/Step_Systems.thy ===== *)
theory Step_Systems
  imports Main
begin

text \<open>
  Systems of goroutines as event-driven machines: a firing function gives the state after an event,
  or \<open>None\<close> when the event is not enabled there (a goroutine that is blocked, a choice that is not
  available). A run is a list of events, so a concrete run evaluates; the reachable states
  are those of all runs, and an invariant is proved once per event through the locale below.
\<close>

section \<open>Runs and reachable states\<close>

fun run_events :: "('e \<Rightarrow> 's \<Rightarrow> 's option) \<Rightarrow> 'e list \<Rightarrow> 's \<Rightarrow> 's option" where
  "run_events fire [] s = Some s"
| "run_events fire (e # es) s = (case fire e s of None \<Rightarrow> None | Some s' \<Rightarrow> run_events fire es s')"

inductive reach :: "('e \<Rightarrow> 's \<Rightarrow> 's option) \<Rightarrow> 's \<Rightarrow> 's \<Rightarrow> bool" for fire :: "'e \<Rightarrow> 's \<Rightarrow> 's option" and s0 :: 's where
  reach_start: "reach fire s0 s0"
| reach_step: "reach fire s0 s \<Longrightarrow> fire e s = Some s' \<Longrightarrow> reach fire s0 s'"

lemma run_events_append:
  "run_events fire (xs @ ys) s = (case run_events fire xs s of None \<Rightarrow> None | Some s' \<Rightarrow> run_events fire ys s')"
  by (induction xs arbitrary: s) (simp_all split: option.split)

lemma reach_run: "reach fire s0 s \<Longrightarrow> run_events fire es s = Some s' \<Longrightarrow> reach fire s0 s'"
  by (induction es arbitrary: s) (auto split: option.splits intro: reach.intros)

lemma reach_iff_run: "reach fire s0 s \<longleftrightarrow> (\<exists>es. run_events fire es s0 = Some s)"
proof
  assume "reach fire s0 s"
  then show "\<exists>es. run_events fire es s0 = Some s"
  proof (induction rule: reach.induct)
    case reach_start
    show ?case by (rule exI [of _ "[]"]) simp
  next
    case (reach_step s e s')
    then obtain es where "run_events fire es s0 = Some s" by blast
    with reach_step(2) show ?case by (intro exI [of _ "es @ [e]"]) (simp add: run_events_append)
  qed
qed (auto intro: reach_run reach_start)

section \<open>Invariants\<close>

locale event_invariant =
  fixes fire :: "'e \<Rightarrow> 's \<Rightarrow> 's option"
    and start :: "'s \<Rightarrow> bool"
    and inv :: "'s \<Rightarrow> 's \<Rightarrow> bool"
  assumes inv_start: "start s0 \<Longrightarrow> inv s0 s0"
    and inv_fire: "inv s0 s \<Longrightarrow> fire e s = Some s' \<Longrightarrow> inv s0 s'"
begin

lemma reach_inv: "start s0 \<Longrightarrow> reach fire s0 s \<Longrightarrow> inv s0 s"
proof -
  assume "start s0" and "reach fire s0 s"
  from this(2,1) show "inv s0 s"
    by (induction rule: reach.induct) (auto intro: inv_start inv_fire)
qed

end

section \<open>Bounded work\<close>

text \<open>A phase a system does not leave, in which every event of a class takes away from a measure
  and no other event adds to it: a run has at most as many events of that class as the measure
  says.\<close>

locale draining_phase =
  fixes fire :: "'e \<Rightarrow> 's \<Rightarrow> 's option"
    and phase :: "'s \<Rightarrow> bool"
    and work :: "'e \<Rightarrow> bool"
    and weight :: "'s \<Rightarrow> nat"
  assumes phase_kept: "phase s \<Longrightarrow> fire e s = Some s' \<Longrightarrow> phase s'"
    and work_done: "phase s \<Longrightarrow> fire e s = Some s' \<Longrightarrow> work e \<Longrightarrow> weight s' < weight s"
    and rest_kept: "phase s \<Longrightarrow> fire e s = Some s' \<Longrightarrow> \<not> work e \<Longrightarrow> weight s' \<le> weight s"
begin

lemma run_bounded:
  "phase s \<Longrightarrow> run_events fire es s = Some s' \<Longrightarrow>
     phase s' \<and> length (filter work es) + weight s' \<le> weight s"
proof (induction es arbitrary: s)
  case (Cons e es)
  then obtain t where t: "fire e s = Some t" "run_events fire es t = Some s'"
    by (auto split: option.splits)
  from Cons.IH [OF phase_kept [OF Cons.prems(1) t(1)] t(2)] work_done [OF Cons.prems(1) t(1)]
    rest_kept [OF Cons.prems(1) t(1)]
  show ?case by (cases "work e") auto
qed simp

end

section \<open>Slots\<close>

text \<open>A bounded channel used as a semaphore, with a drain that can win over it: the worker's
  \<open>slots\<close> and the agent's \<open>connSlots\<close>. The select takes a slot or reports the drain; it blocks
  exactly when there is no slot to take and no drain to report.\<close>

locale slot_gate =
  fixes slots :: "'s \<Rightarrow> (nat \<times> nat) option"
    and draining :: "'s \<Rightarrow> bool"
    and sel :: "bool \<Rightarrow> 's \<Rightarrow> (bool \<times> 's) option"
    and rel :: "'s \<Rightarrow> 's"
  assumes sel_slot: "slots s = Some (cap, held) \<Longrightarrow> sel pick s = Some (True, s') \<Longrightarrow>
      held < cap \<and> slots s' = Some (cap, Suc held) \<and> rel s' = s"
    and sel_drain: "slots s = Some (cap, held) \<Longrightarrow> sel pick s = Some (False, s') \<Longrightarrow> draining s \<and> s' = s"
    and sel_blocks: "slots s = Some (cap, held) \<Longrightarrow> sel pick s = None \<longleftrightarrow> held \<ge> cap \<and> \<not> draining s"
begin

lemma sel_bounded:
  assumes "slots s = Some (cap, held)" and "held \<le> cap" and "sel pick s = Some (got, s')"
  shows "\<exists>held'. slots s' = Some (cap, held') \<and> held' \<le> cap \<and> held' = held + (if got then 1 else 0)"
  using assms sel_slot [OF assms(1)] sel_drain [OF assms(1)] by (cases got) fastforce+

lemma drain_wakes: "slots s = Some (cap, held) \<Longrightarrow> draining s \<Longrightarrow> sel pick s \<noteq> None"
  using sel_blocks by blast

end

end
