(* ===== verification/Worker_System.thy ===== *)
theory Worker_System
  imports Worker Step_Systems
begin

text \<open>
  One connection as a system of goroutines: the read loop (\<open>run\<close> of \<open>src/worker/worker.go\<close>) and
  one goroutine per NOTIFY (\<open>processNotifyFrame\<close> of \<open>src/worker/frame_notify.go\<close>), interleaved
  at the points where the source releases a lock, takes or releases a slot, changes the WaitGroup,
  blocks or calls the handler, together with what
  the agent does to the connection from outside: beginning a drain, waking the read loop and
  closing the socket. Every read may return anything a reader can, every handler may leave any
  request behind, and other connections may use the pools at any time.
\<close>

section \<open>States\<close>

text \<open>Where the read loop is; a frame it holds is part of its position.\<close>

datatype rpc =
    RTop
  | RArm Frame
  | RArmSet Frame
  | RArmRecheck Frame
  | RRead Frame
  | RDispatch Frame
  | RAcquire Frame
  | RSlot Frame
  | RSpawn Frame
  | RDrain "Frame option"
  | RClose "run_error option"
  | RCancel "run_error option"
  | RStopped "run_error option"

text \<open>Where a NOTIFY goroutine is: before its handler, in it, reporting a failed ACK, closing,
  releasing, gone. It holds the NOTIFY frame, then a request, then the ACK frame.\<close>

datatype hpc =
    HStart Frame
  | HRun Frame Request
  | HFailed ack_error Frame Frame Request
  | HClose Frame Frame Request
  | HFinish Frame Frame Request
  | HRelease
  | HLeave
  | HDone

record system =
  s_w :: worker
  s_read :: rpc
  s_hs :: "hpc list"
  s_now :: time
  s_poked :: bool
  s_notified :: "(u64 \<times> u64) list"

datatype event =
    EvRead reader bool
  | EvHandler nat Request
  | EvDrain
  | EvPoke
  | EvForceClose
  | EvTick nat
  | EvPools request_pools

section \<open>The read loop\<close>

definition drop_frame :: "Frame \<Rightarrow> worker \<Rightarrow> worker" where
  "drop_frame f w = w\<lparr>w_pools := ReleaseFrame f (w_pools w)\<rparr>"

definition armed :: "Frame \<Rightarrow> rpc \<Rightarrow> io_error option \<times> worker \<Rightarrow> system \<Rightarrow> system" where
  "armed f pc r s =
     (case r of
        (None, w) \<Rightarrow> s\<lparr>s_w := w, s_read := pc\<rparr>
      | (Some e, w) \<Rightarrow> s\<lparr>s_w := drop_frame f w, s_read := RClose (Some (RunDeadline e))\<rparr>)"

text \<open>\<open>inflight.Add\<close> and the start of the goroutine; the slot, if there is a limit, is taken before.\<close>

definition spawn :: "Frame \<Rightarrow> system \<Rightarrow> system" where
  "spawn f s =
     s\<lparr>s_w := (s_w s)\<lparr>w_inflight := w_inflight (s_w s) + 1\<rparr>, s_hs := s_hs s @ [HStart f], s_read := RTop,
       s_notified := s_notified s @ [(f_StreamID f, f_FrameID f)]\<rparr>"

definition read_done :: "read_error option \<Rightarrow> Frame \<Rightarrow> worker \<Rightarrow> system \<Rightarrow> system" where
  "read_done err f w s =
     (case err of
        None \<Rightarrow> s\<lparr>s_w := w, s_read := RDispatch f\<rparr>
      | Some e \<Rightarrow>
          (case read_failed (s_now s) e (drop_frame f w) of
             (Return r, w) \<Rightarrow> s\<lparr>s_w := w, s_read := RClose r\<rparr>
           | (_, w) \<Rightarrow> s\<lparr>s_w := w, s_read := RDrain None\<rparr>))"

definition dispatched :: "Frame \<Rightarrow> loop_out \<times> worker \<Rightarrow> system \<Rightarrow> system" where
  "dispatched f r s =
     (case r of
        (NeedSlot, w) \<Rightarrow> s\<lparr>s_w := w, s_read := RAcquire f\<rparr>
      | (Return e, w) \<Rightarrow> s\<lparr>s_w := drop_frame f w, s_read := RClose e\<rparr>
      | (_, w) \<Rightarrow> s\<lparr>s_w := drop_frame f w, s_read := RTop\<rparr>)"

definition drained :: "Frame option \<Rightarrow> system \<Rightarrow> system" where
  "drained fo s =
     (let w = drain (s_now s) (s_w s)
      in s\<lparr>s_w := (case fo of None \<Rightarrow> w | Some f \<Rightarrow> drop_frame f w), s_read := RClose None\<rparr>)"

definition read_step :: "go_texts \<Rightarrow> reader \<Rightarrow> bool \<Rightarrow> system \<Rightarrow> system option" where
  "read_step tx src pick s =
     (let w = s_w s; now = s_now s in
      case s_read s of
        RTop \<Rightarrow>
          let (f, ps) = AcquireFrame (w_pools w) in Some (s\<lparr>s_w := w\<lparr>w_pools := ps\<rparr>, s_read := RArm f\<rparr>)
      | RArm f \<Rightarrow>
          if shuttingDown w then Some (armed f (RRead f) (arm_expired now w) s)
          else Some (s\<lparr>s_read := RArmSet f\<rparr>)
      | RArmSet f \<Rightarrow> Some (armed f (RArmRecheck f) (arm_set now w) s)
      | RArmRecheck f \<Rightarrow> Some (armed f (RRead f) (arm_recheck now w) s)
      | RRead f \<Rightarrow>
          let (err, f, _, ps) = Frame_ReadLimit f src (frameLimit w) (Some FromHAProxy) (w_pools w)
          in Some (read_done err f (w\<lparr>w_pools := ps\<rparr>) s)
      | RDispatch f \<Rightarrow> Some (dispatched f (dispatch tx now f w) s)
      | RAcquire f \<Rightarrow>
          (case acquireSlot w of
             Some True \<Rightarrow> Some (s\<lparr>s_read := RSpawn f\<rparr>)
           | Some False \<Rightarrow> Some (s\<lparr>s_read := RDrain (Some f)\<rparr>)
           | None \<Rightarrow> Some (s\<lparr>s_read := RSlot f\<rparr>))
      | RSlot f \<Rightarrow>
          (case acquireSlot_select pick w of
             None \<Rightarrow> None
           | Some (True, w) \<Rightarrow> Some (s\<lparr>s_w := w, s_read := RSpawn f\<rparr>)
           | Some (False, w) \<Rightarrow> Some (s\<lparr>s_w := w, s_read := RDrain (Some f)\<rparr>))
      | RSpawn f \<Rightarrow> Some (spawn f s)
      | RDrain fo \<Rightarrow> if w_inflight w = 0 then Some (drained fo s) else None
      | RClose r \<Rightarrow> Some (s\<lparr>s_w := close w, s_read := RCancel r\<rparr>)
      | RCancel r \<Rightarrow> Some (s\<lparr>s_w := w\<lparr>w_cancelled := True\<rparr>, s_read := RStopped r\<rparr>)
      | RStopped r \<Rightarrow> None)"

section \<open>A NOTIFY goroutine\<close>

definition handler_next :: "go_texts \<Rightarrow> time \<Rightarrow> Request \<Rightarrow> hpc \<Rightarrow> worker \<Rightarrow> (hpc \<times> worker) option" where
  "handler_next tx now req h w =
     (case h of
        HStart f \<Rightarrow> let (r, w) = notify_request f w in Some (HRun f r, w)
      | HRun f r \<Rightarrow>
          let (err, ack, w) = notify_ack now f req w in
          Some (case err of
                  None \<Rightarrow> HFinish f ack req
                | Some AckAfterDisconnect \<Rightarrow> HFinish f ack req
                | Some e \<Rightarrow> HFailed e f ack req, w)
      | HFailed e f ack r \<Rightarrow> Some (HClose f ack r, notify_failed tx now e w)
      | HClose f ack r \<Rightarrow> Some (HFinish f ack r, close w)
      | HFinish f ack r \<Rightarrow> Some (HRelease, notify_release f ack r w)
      | HRelease \<Rightarrow> Some (HLeave, releaseSlot w)
      | HLeave \<Rightarrow> Some (HDone, notify_done w)
      | HDone \<Rightarrow> None)"

definition handler_step :: "go_texts \<Rightarrow> nat \<Rightarrow> Request \<Rightarrow> system \<Rightarrow> system option" where
  "handler_step tx i req s =
     (if i < length (s_hs s)
      then case handler_next tx (s_now s) req (s_hs s ! i) (s_w s) of
        None \<Rightarrow> None
      | Some (h, w) \<Rightarrow> Some (s\<lparr>s_w := w, s_hs := (s_hs s)[i := h]\<rparr>)
      else None)"

section \<open>The system\<close>

text \<open>Waking a read loop (\<open>Agent.Shutdown\<close>) comes after the drain has begun; \<open>s_poked\<close> records that
  the socket accepted it. Closing from outside is \<open>Agent.closeAll\<close>.\<close>

definition poke :: "system \<Rightarrow> system" where
  "poke s =
     (let (err, conn) = SetReadDeadline (Some (s_now s)) (w_conn (s_w s))
      in s\<lparr>s_w := (s_w s)\<lparr>w_conn := conn\<rparr>, s_poked := s_poked s \<or> err = None\<rparr>)"

definition fire :: "go_texts \<Rightarrow> event \<Rightarrow> system \<Rightarrow> system option" where
  "fire tx ev s =
     (case ev of
        EvRead src pick \<Rightarrow> read_step tx src pick s
      | EvHandler i req \<Rightarrow> handler_step tx i req s
      | EvDrain \<Rightarrow>
          if w_done (s_w s) = Some False then Some (s\<lparr>s_w := (s_w s)\<lparr>w_done := Some True\<rparr>\<rparr>) else None
      | EvPoke \<Rightarrow> if shuttingDown (s_w s) then Some (poke s) else None
      | EvForceClose \<Rightarrow> if shuttingDown (s_w s) then Some (s\<lparr>s_w := close (s_w s)\<rparr>) else None
      | EvTick d \<Rightarrow> Some (s\<lparr>s_now := s_now s + int d\<rparr>)
      | EvPools ps \<Rightarrow>
          if pools_keep (w_pools (s_w s)) ps then Some (s\<lparr>s_w := (s_w s)\<lparr>w_pools := ps\<rparr>\<rparr>) else None)"

text \<open>A worker as \<open>Handle\<close> starts it, on a connection that has carried nothing.\<close>

definition worker_start :: "system \<Rightarrow> bool" where
  "worker_start s \<longleftrightarrow>
     (\<exists>conn cfg ps now. conn_ok conn \<and> log_of conn = [] \<and> request_pool_ok ps \<and>
        s = \<lparr>s_w = Handle conn cfg ps, s_read = RTop, s_hs = [], s_now = now, s_poked = False,
             s_notified = []\<rparr>)"

end
