(* ===== verification/Agent.thy ===== *)
theory Agent
  imports Worker_System
begin

text \<open>
  Package \<open>agent\<close>, its state and operations (\<open>src/agent/agent.go\<close>). An operation that runs under
  \<open>mu\<close> is one function; one that waits in a select is a function with \<open>None\<close> while it waits, whose
  argument \<open>pick\<close> is the choice Go makes when both branches are ready.

  Correspondence: \<open>a_connSlots\<close> is the channel \<open>connSlots\<close>, nil or its capacity and the number of
  values in it; \<open>a_done\<close> says that the channel \<open>done\<close> is closed, \<open>a_cancelled\<close> that the
  context is cancelled; \<open>a_wg\<close> is the counter of the WaitGroup. A connection is named by its number,
  a listener by one the caller gives; the roster \<open>conns\<close> is the list of its keys. Durations are in
  nanoseconds. The only duration the agent computes is the accept backoff, which never exceeds
  twice a second, so no 64-bit overflow is possible there.
\<close>

section \<open>The agent and its options\<close>

definition DefaultHandshakeTimeout :: time where "DefaultHandshakeTimeout = 10 * 1000000000"
definition DefaultWriteTimeout :: time where "DefaultWriteTimeout = 10 * 1000000000"
definition DefaultMaxInFlight :: int where "DefaultMaxInFlight = 20"
definition minAcceptBackoff :: time where "minAcceptBackoff = 5 * 1000000"
definition maxAcceptBackoff :: time where "maxAcceptBackoff = 1 * 1000000000"

record Agent =
  a_timeouts :: Timeouts
  a_maxInFlight :: int
  a_maxConnections :: int
  a_connSlots :: "(nat \<times> nat) option"
  a_cancelled :: bool
  a_done :: bool
  a_draining :: bool
  a_listeners :: "nat list"
  a_conns :: "nat list"
  a_wg :: int

type_synonym Option = "Agent \<Rightarrow> Agent"

definition WithHandshakeTimeout :: "time \<Rightarrow> Option" where
  "WithHandshakeTimeout d a = a\<lparr>a_timeouts := (a_timeouts a)\<lparr>tm_Handshake := d\<rparr>\<rparr>"

definition WithIdleTimeout :: "time \<Rightarrow> Option" where
  "WithIdleTimeout d a = a\<lparr>a_timeouts := (a_timeouts a)\<lparr>tm_Idle := d\<rparr>\<rparr>"

definition WithWriteTimeout :: "time \<Rightarrow> Option" where
  "WithWriteTimeout d a = a\<lparr>a_timeouts := (a_timeouts a)\<lparr>tm_Write := d\<rparr>\<rparr>"

definition WithMaxInFlight :: "int \<Rightarrow> Option" where
  "WithMaxInFlight n a = a\<lparr>a_maxInFlight := n\<rparr>"

definition WithMaxConnections :: "int \<Rightarrow> Option" where
  "WithMaxConnections n a = a\<lparr>a_maxConnections := n\<rparr>"

definition New :: "Option list \<Rightarrow> Agent" where
  "New opts =
     (let agent = \<lparr>a_timeouts = \<lparr>tm_Handshake = DefaultHandshakeTimeout, tm_Idle = 0, tm_Write = DefaultWriteTimeout\<rparr>,
            a_maxInFlight = DefaultMaxInFlight, a_maxConnections = 0, a_connSlots = None, a_cancelled = False,
            a_done = False, a_draining = False, a_listeners = [], a_conns = [], a_wg = 0\<rparr>;
          agent = fold (\<lambda>opt agent. opt agent) opts agent
      in if a_maxConnections agent > 0
         then agent\<lparr>a_connSlots := Some (nat (a_maxConnections agent), 0)\<rparr>
         else agent)"

section \<open>Accept errors\<close>

definition nextAcceptBackoff :: "time \<Rightarrow> time" where
  "nextAcceptBackoff d =
     (if d = 0 then minAcceptBackoff
      else let d = d * 2 in if d > maxAcceptBackoff then maxAcceptBackoff else d)"

text \<open>An error as \<open>errors.Is\<close> and \<open>errors.As\<close> see it: the errors of its tree in the order they are
  visited, each with what its Timeout method answers, if it has one, and the errno values it is
  equal to or claims to be.\<close>

datatype errno = EINTR | EMFILE | ENFILE | ENOBUFS | ENOMEM | OtherErrno nat

record err_node =
  en_Timeout :: "bool option"
  en_is :: "errno list"

type_synonym accept_error = "err_node list"

definition transientAcceptErrors :: "errno list" where
  "transientAcceptErrors = [EINTR, EMFILE, ENFILE, ENOBUFS, ENOMEM]"

definition errors_Is :: "accept_error \<Rightarrow> errno \<Rightarrow> bool" where
  "errors_Is err target = list_ex (\<lambda>n. target \<in> set (en_is n)) err"

definition errors_As_timeout :: "accept_error \<Rightarrow> bool option" where
  "errors_As_timeout err = (case find (\<lambda>n. en_Timeout n \<noteq> None) err of None \<Rightarrow> None | Some n \<Rightarrow> en_Timeout n)"

definition isTransientAcceptError :: "accept_error \<Rightarrow> bool" where
  "isTransientAcceptError err =
     (if errors_As_timeout err = Some True then True
      else list_ex (errors_Is err) transientAcceptErrors)"

section \<open>Waiting\<close>

definition isDraining :: "Agent \<Rightarrow> bool" where
  "isDraining a = a_draining a"

definition pause :: "bool \<Rightarrow> bool \<Rightarrow> Agent \<Rightarrow> bool option" where
  "pause expired pick a =
     (if expired \<and> (pick \<or> \<not> a_done a) then Some True
      else if a_done a then Some False
      else None)"

definition acquireConn :: "Agent \<Rightarrow> bool option" where
  "acquireConn a =
     (if a_connSlots a = None then Some True
      else if isDraining a then Some False
      else None)"

definition acquireConn_select :: "bool \<Rightarrow> Agent \<Rightarrow> (bool \<times> Agent) option" where
  "acquireConn_select pick a =
     (case a_connSlots a of
        None \<Rightarrow> None
      | Some (cap, held) \<Rightarrow>
          if held < cap \<and> (pick \<or> \<not> a_done a) then Some (True, a\<lparr>a_connSlots := Some (cap, Suc held)\<rparr>)
          else if a_done a then Some (False, a)
          else None)"

definition releaseConn :: "Agent \<Rightarrow> Agent" where
  "releaseConn a =
     (case a_connSlots a of None \<Rightarrow> a | Some (cap, held) \<Rightarrow> a\<lparr>a_connSlots := Some (cap, held - 1)\<rparr>)"

section \<open>The roster\<close>

definition track :: "nat \<Rightarrow> Agent \<Rightarrow> bool \<times> Agent" where
  "track c a =
     (if a_draining a then (False, a)
      else (True, a\<lparr>a_conns := List.insert c (a_conns a), a_wg := a_wg a + 1\<rparr>))"

text \<open>\<open>forget\<close> takes the connection off the roster under the lock and calls \<open>Done\<close> after it.\<close>

definition forget_delete :: "nat \<Rightarrow> Agent \<Rightarrow> Agent" where
  "forget_delete c a = a\<lparr>a_conns := removeAll c (a_conns a)\<rparr>"

definition forget_done :: "Agent \<Rightarrow> Agent" where
  "forget_done a = a\<lparr>a_wg := a_wg a - 1\<rparr>"

definition addListener :: "nat \<Rightarrow> Agent \<Rightarrow> bool \<times> Agent" where
  "addListener l a =
     (if a_draining a then (False, a) else (True, a\<lparr>a_listeners := a_listeners a @ [l]\<rparr>))"

text \<open>A range over a Go map visits its keys in any order; \<open>order\<close> is the one it takes.\<close>

definition liveConns :: "nat list \<Rightarrow> Agent \<Rightarrow> nat list option" where
  "liveConns order a = (if distinct order \<and> set order = set (a_conns a) then Some order else None)"

section \<open>Laws\<close>

interpretation agate: slot_gate a_connSlots a_done acquireConn_select releaseConn
  by unfold_locales
     (auto simp: acquireConn_select_def releaseConn_def split: if_splits option.splits)

text \<open>The options of the package touch the configuration alone, so a new agent is idle, open and has
  as many slots as its limit says.\<close>

definition package_option :: "Option \<Rightarrow> bool" where
  "package_option opt \<longleftrightarrow> (\<exists>d n. opt = WithHandshakeTimeout d \<or> opt = WithIdleTimeout d \<or> opt = WithWriteTimeout d \<or>
     opt = WithMaxInFlight n \<or> opt = WithMaxConnections n)"

definition idle_agent :: "Agent \<Rightarrow> bool" where
  "idle_agent a \<longleftrightarrow> \<not> a_cancelled a \<and> \<not> a_done a \<and> \<not> a_draining a \<and> a_listeners a = [] \<and> a_conns a = [] \<and> a_wg a = 0"

lemma package_option_idle:
  "package_option opt \<Longrightarrow> idle_agent (opt a) = idle_agent a \<and> a_connSlots (opt a) = a_connSlots a"
  by (auto simp: package_option_def idle_agent_def WithHandshakeTimeout_def WithIdleTimeout_def WithWriteTimeout_def
      WithMaxInFlight_def WithMaxConnections_def)

lemma package_options_idle:
  "\<forall>opt \<in> set opts. package_option opt \<Longrightarrow>
     idle_agent (fold (\<lambda>opt a. opt a) opts a) = idle_agent a \<and> a_connSlots (fold (\<lambda>opt a. opt a) opts a) = a_connSlots a"
  by (induction opts arbitrary: a) (simp_all add: package_option_idle)

lemma New_idle:
  assumes "\<forall>opt \<in> set opts. package_option opt"
  shows "idle_agent (New opts) \<and> a_connSlots (New opts) =
    (if a_maxConnections (New opts) > 0 then Some (nat (a_maxConnections (New opts)), 0) else None)"
  using package_options_idle [OF assms, of "\<lparr>a_timeouts = \<lparr>tm_Handshake = DefaultHandshakeTimeout, tm_Idle = 0,
      tm_Write = DefaultWriteTimeout\<rparr>, a_maxInFlight = DefaultMaxInFlight, a_maxConnections = 0, a_connSlots = None,
      a_cancelled = False, a_done = False, a_draining = False, a_listeners = [], a_conns = [], a_wg = 0\<rparr>"]
  by (auto simp: New_def Let_def idle_agent_def)

lemma backoff_power:
  "(nextAcceptBackoff ^^ Suc n) 0 = min (2 ^ n * minAcceptBackoff) maxAcceptBackoff"
proof (induction n)
  case 0
  show ?case by (simp add: nextAcceptBackoff_def minAcceptBackoff_def maxAcceptBackoff_def)
next
  case (Suc n)
  have "(0::int) < 2 ^ n" by simp
  with Suc show ?case
    by (simp add: nextAcceptBackoff_def minAcceptBackoff_def maxAcceptBackoff_def Let_def min_def)
qed

end
