(* ===== verification/Agent_System.thy ===== *)
theory Agent_System
  imports Agent
begin

text \<open>
  The agent as a system of goroutines (\<open>src/agent/agent.go\<close>): any number of \<open>Serve\<close> calls, any number
  of \<open>Shutdown\<close> calls, and one goroutine per connection, which runs \<open>worker.Handle\<close>, the system
  of \<open>Worker_System\<close>, and then its deferred calls. The steps are cut where the source takes or
  releases \<open>mu\<close> or waits. Every listener may accept or fail in any way, every socket may
  behave in any way, and the context given to \<open>Shutdown\<close> may expire at any time.
\<close>

section \<open>States\<close>

datatype accept_result = Accepted "nat \<Rightarrow> nat \<times> io_error option" | AcceptFailed accept_error

datatype serve_result = ErrShutdown | AcceptError accept_error

text \<open>Where a call of \<open>Serve\<close> is; the listener, the backoff and the connection it holds are part of
  its position.\<close>

datatype spc =
    SEnter nat
  | SAcquire nat time
  | SSelect nat time
  | SAccept nat time
  | STrack nat Conn
  | SRefused Conn
  | SFailed nat time accept_error
  | SPause nat time time
  | SReturned serve_result

datatype ctx_error = Canceled | DeadlineExceeded

text \<open>Where a call of \<open>Shutdown\<close> is; the listeners still to close and the connections still to wake
  or to close are part of its position. A call that has returned keeps whether it was the one
  that began the drain.\<close>

datatype shpc =
    ShEnter
  | ShListeners "nat list" "nat list"
  | ShWake "nat list"
  | ShWait
  | ShCloseAll ctx_error
  | ShClosing ctx_error "nat list"
  | ShReturned bool "ctx_error option"

text \<open>The goroutine of a connection: in \<open>worker.Handle\<close>, off the roster, counted out of the
  WaitGroup, gone. \<open>c_wake\<close> is the outcome of the call by which \<open>Shutdown\<close> wakes the read loop, once
  it has been made.\<close>

datatype cpc = CRunning | CDeleted | CForgotten | CGone

record conn_go =
  c_pc :: cpc
  c_sys :: system
  c_wake :: "io_error option option"

record agent_sys =
  g_a :: Agent
  g_serves :: "spc list"
  g_conns :: "conn_go list"
  g_shuts :: "shpc list"
  g_closed :: "nat list"
  g_refused :: "Conn list"
  g_now :: time

datatype agent_event =
    AServe nat
  | AServeStep nat accept_result bool request_pools
  | AWorker nat event
  | AConn nat
  | AShutdown
  | AShutStep nat "nat list" bool ctx_error
  | ATick nat

section \<open>Serve\<close>

text \<open>What a step of \<open>Serve\<close> leaves behind: a connection whose goroutine it starts, or one it has
  closed because the drain began between Accept and the roster.\<close>

datatype served = Quiet | Started Conn | Refused Conn

definition agent_worker :: "Agent \<Rightarrow> Conn \<Rightarrow> request_pools \<Rightarrow> time \<Rightarrow> system" where
  "agent_worker a c ps now =
     \<lparr>s_w = Handle c \<lparr>cfg_Timeouts = a_timeouts a, cfg_Done = Some (a_done a), cfg_MaxInFlight = a_maxInFlight a\<rparr> ps,
      s_read = RTop, s_hs = [], s_now = now, s_poked = False, s_notified = []\<rparr>"

definition serve_next ::
  "accept_result \<Rightarrow> bool \<Rightarrow> time \<Rightarrow> nat \<Rightarrow> spc \<Rightarrow> Agent \<Rightarrow> (spc \<times> Agent \<times> served) option" where
  "serve_next res pick now c pc a =
     (case pc of
        SEnter l \<Rightarrow>
          let (ok, a) = addListener l a in
          Some (if ok then SAcquire l 0 else SReturned ErrShutdown, a, Quiet)
      | SAcquire l backoff \<Rightarrow>
          Some (case acquireConn a of
                  Some True \<Rightarrow> SAccept l backoff
                | Some False \<Rightarrow> SReturned ErrShutdown
                | None \<Rightarrow> SSelect l backoff, a, Quiet)
      | SSelect l backoff \<Rightarrow>
          (case acquireConn_select pick a of
             None \<Rightarrow> None
           | Some (ok, a) \<Rightarrow> Some (if ok then SAccept l backoff else SReturned ErrShutdown, a, Quiet))
      | SAccept l backoff \<Rightarrow>
          (case res of
             AcceptFailed err \<Rightarrow> Some (SFailed l backoff err, releaseConn a, Quiet)
           | Accepted script \<Rightarrow>
               Some (STrack l (SetWriteTimeout (tm_Write (a_timeouts a)) (NewConn (fresh_net script))), a, Quiet))
      | STrack l conn \<Rightarrow>
          let (ok, a) = track c a in
          Some (if ok then (SAcquire l 0, a, Started conn) else (SRefused conn, a, Quiet))
      | SRefused conn \<Rightarrow> Some (SReturned ErrShutdown, releaseConn a, Refused (snd (Close conn)))
      | SFailed l backoff err \<Rightarrow>
          if isDraining a then Some (SReturned ErrShutdown, a, Quiet)
          else if isTransientAcceptError err then
            let backoff = nextAcceptBackoff backoff in Some (SPause l backoff (now + backoff), a, Quiet)
          else Some (SReturned (AcceptError err), a, Quiet)
      | SPause l backoff until \<Rightarrow>
          (case pause (until \<le> now) pick a of
             None \<Rightarrow> None
           | Some ok \<Rightarrow> Some (if ok then SAcquire l backoff else SReturned ErrShutdown, a, Quiet))
      | SReturned r \<Rightarrow> None)"

definition serve_step :: "nat \<Rightarrow> accept_result \<Rightarrow> bool \<Rightarrow> request_pools \<Rightarrow> agent_sys \<Rightarrow> agent_sys option" where
  "serve_step i res pick ps g =
     (if i < length (g_serves g) \<and> request_pool_ok ps
      then case serve_next res pick (g_now g) (length (g_conns g)) (g_serves g ! i) (g_a g) of
        None \<Rightarrow> None
      | Some (pc, a, out) \<Rightarrow>
          let g = g\<lparr>g_a := a, g_serves := (g_serves g)[i := pc]\<rparr> in
          Some (case out of
                  Quiet \<Rightarrow> g
                | Started c \<Rightarrow>
                    g\<lparr>g_conns := g_conns g @ [\<lparr>c_pc = CRunning, c_sys = agent_worker a c ps (g_now g), c_wake = None\<rparr>]\<rparr>
                | Refused c \<Rightarrow> g\<lparr>g_refused := g_refused g @ [c]\<rparr>)
      else None)"

section \<open>The goroutine of a connection\<close>

text \<open>What the worker's own goroutines do, and other users of the pools; a drain, a wake-up and a
  close from outside come from \<open>Shutdown\<close> below, time from the system.\<close>

definition worker_event :: "event \<Rightarrow> bool" where
  "worker_event ev = (case ev of EvRead _ _ \<Rightarrow> True | EvHandler _ _ \<Rightarrow> True | EvPools _ \<Rightarrow> True | _ \<Rightarrow> False)"

definition set_sys :: "nat \<Rightarrow> system \<Rightarrow> agent_sys \<Rightarrow> agent_sys" where
  "set_sys i s g = g\<lparr>g_conns := (g_conns g)[i := (g_conns g ! i)\<lparr>c_sys := s\<rparr>]\<rparr>"

definition worker_step :: "go_texts \<Rightarrow> nat \<Rightarrow> event \<Rightarrow> agent_sys \<Rightarrow> agent_sys option" where
  "worker_step tx i ev g =
     (if i < length (g_conns g) \<and> worker_event ev
      then case fire tx ev (c_sys (g_conns g ! i)) of None \<Rightarrow> None | Some s \<Rightarrow> Some (set_sys i s g)
      else None)"

definition stopped :: "system \<Rightarrow> bool" where
  "stopped s = (case s_read s of RStopped r \<Rightarrow> True | _ \<Rightarrow> False)"

definition conn_next :: "nat \<Rightarrow> system \<Rightarrow> cpc \<Rightarrow> Agent \<Rightarrow> (cpc \<times> Agent) option" where
  "conn_next i s pc a =
     (case pc of
        CRunning \<Rightarrow> if stopped s then Some (CDeleted, forget_delete i a) else None
      | CDeleted \<Rightarrow> Some (CForgotten, forget_done a)
      | CForgotten \<Rightarrow> Some (CGone, releaseConn a)
      | CGone \<Rightarrow> None)"

definition conn_step :: "nat \<Rightarrow> agent_sys \<Rightarrow> agent_sys option" where
  "conn_step i g =
     (if i < length (g_conns g)
      then case conn_next i (c_sys (g_conns g ! i)) (c_pc (g_conns g ! i)) (g_a g) of
        None \<Rightarrow> None
      | Some (pc, a) \<Rightarrow> Some (g\<lparr>g_a := a, g_conns := (g_conns g)[i := (g_conns g ! i)\<lparr>c_pc := pc\<rparr>]\<rparr>)
      else None)"

section \<open>Shutdown\<close>

text \<open>The part of \<open>Shutdown\<close> under the lock: \<open>None\<close> when a drain has begun already, and otherwise
  the agent and the listeners to close. Closing \<open>done\<close> is seen by every worker at once.\<close>

definition Shutdown_begin :: "Agent \<Rightarrow> (nat list \<times> Agent) option" where
  "Shutdown_begin a =
     (if a_draining a then None
      else Some (a_listeners a, a\<lparr>a_draining := True, a_done := True, a_listeners := []\<rparr>))"

definition done_closed :: "conn_go \<Rightarrow> conn_go" where
  "done_closed c = c\<lparr>c_sys := (c_sys c)\<lparr>s_w := (s_w (c_sys c))\<lparr>w_done := Some True\<rparr>\<rparr>\<rparr>"

definition wake :: "nat \<Rightarrow> agent_sys \<Rightarrow> agent_sys" where
  "wake i g =
     (if i < length (g_conns g) then
        let c = g_conns g ! i;
            err = fst (SetReadDeadline (Some (s_now (c_sys c))) (w_conn (s_w (c_sys c))))
        in g\<lparr>g_conns := (g_conns g)[i := c\<lparr>c_sys := poke (c_sys c), c_wake := Some err\<rparr>]\<rparr>
      else g)"

definition force_close :: "nat \<Rightarrow> agent_sys \<Rightarrow> agent_sys" where
  "force_close i g =
     (if i < length (g_conns g)
      then let s = c_sys (g_conns g ! i) in set_sys i (s\<lparr>s_w := close (s_w s)\<rparr>) g
      else g)"

definition shut_next :: "nat list \<Rightarrow> bool \<Rightarrow> ctx_error \<Rightarrow> shpc \<Rightarrow> agent_sys \<Rightarrow> (shpc \<times> agent_sys) option" where
  "shut_next order pick err pc g =
     (case pc of
        ShEnter \<Rightarrow>
          (case Shutdown_begin (g_a g) of
             None \<Rightarrow> Some (ShReturned False None, g)
           | Some (listeners, a) \<Rightarrow>
               (case liveConns order a of
                  None \<Rightarrow> None
                | Some conns \<Rightarrow>
                    Some (ShListeners listeners conns, g\<lparr>g_a := a, g_conns := map done_closed (g_conns g)\<rparr>)))
      | ShListeners [] conns \<Rightarrow> Some (ShWake conns, g)
      | ShListeners (l # ls) conns \<Rightarrow> Some (ShListeners ls conns, g\<lparr>g_closed := l # g_closed g\<rparr>)
      | ShWake [] \<Rightarrow> Some (ShWait, g)
      | ShWake (c # cs) \<Rightarrow> Some (ShWake cs, wake c g)
      | ShWait \<Rightarrow>
          if pick then
            if a_wg (g_a g) = 0 then Some (ShReturned True None, g\<lparr>g_a := (g_a g)\<lparr>a_cancelled := True\<rparr>\<rparr>) else None
          else Some (ShCloseAll err, g\<lparr>g_a := (g_a g)\<lparr>a_cancelled := True\<rparr>\<rparr>)
      | ShCloseAll err \<Rightarrow>
          (case liveConns order (g_a g) of None \<Rightarrow> None | Some conns \<Rightarrow> Some (ShClosing err conns, g))
      | ShClosing err [] \<Rightarrow> Some (ShReturned True (Some err), g)
      | ShClosing err (c # cs) \<Rightarrow> Some (ShClosing err cs, force_close c g)
      | ShReturned first r \<Rightarrow> None)"

definition shut_step :: "nat \<Rightarrow> nat list \<Rightarrow> bool \<Rightarrow> ctx_error \<Rightarrow> agent_sys \<Rightarrow> agent_sys option" where
  "shut_step j order pick err g =
     (if j < length (g_shuts g)
      then case shut_next order pick err (g_shuts g ! j) g of
        None \<Rightarrow> None
      | Some (pc, g) \<Rightarrow> Some (g\<lparr>g_shuts := (g_shuts g)[j := pc]\<rparr>)
      else None)"

section \<open>The system\<close>

definition tick :: "nat \<Rightarrow> agent_sys \<Rightarrow> agent_sys" where
  "tick d g =
     g\<lparr>g_now := g_now g + int d,
       g_conns := map (\<lambda>c. c\<lparr>c_sys := (c_sys c)\<lparr>s_now := s_now (c_sys c) + int d\<rparr>\<rparr>) (g_conns g)\<rparr>"

definition agent_fire :: "go_texts \<Rightarrow> agent_event \<Rightarrow> agent_sys \<Rightarrow> agent_sys option" where
  "agent_fire tx ev g =
     (case ev of
        AServe l \<Rightarrow> Some (g\<lparr>g_serves := g_serves g @ [SEnter l]\<rparr>)
      | AServeStep i res pick ps \<Rightarrow> serve_step i res pick ps g
      | AWorker i ev \<Rightarrow> worker_step tx i ev g
      | AConn i \<Rightarrow> conn_step i g
      | AShutdown \<Rightarrow> Some (g\<lparr>g_shuts := g_shuts g @ [ShEnter]\<rparr>)
      | AShutStep j order pick err \<Rightarrow> shut_step j order pick err g
      | ATick d \<Rightarrow> Some (tick d g))"

definition agent_start :: "agent_sys \<Rightarrow> bool" where
  "agent_start g \<longleftrightarrow>
     (\<exists>opts now. (\<forall>opt \<in> set opts. package_option opt) \<and>
        g = \<lparr>g_a = New opts, g_serves = [], g_conns = [], g_shuts = [], g_closed = [], g_refused = [], g_now = now\<rparr>)"

end
