(* ===== verification/Worker_Steps.thy ===== *)
theory Worker_Steps
  imports Worker_System
begin

text \<open>
  What one step of a connection's goroutines does to the state, as case rules: each case names the
  position before and after and the facts about the parts that changed. The invariants are proved
  from these rules alone.
\<close>

section \<open>Frames held\<close>

fun rframes :: "rpc \<Rightarrow> Frame list" where
  "rframes (RArm f) = [f]"
| "rframes (RArmSet f) = [f]"
| "rframes (RArmRecheck f) = [f]"
| "rframes (RRead f) = [f]"
| "rframes (RDispatch f) = [f]"
| "rframes (RAcquire f) = [f]"
| "rframes (RSlot f) = [f]"
| "rframes (RSpawn f) = [f]"
| "rframes (RDrain (Some f)) = [f]"
| "rframes _ = []"

fun hframes :: "hpc \<Rightarrow> Frame list" where
  "hframes (HStart f) = [f]"
| "hframes (HRun f r) = [f]"
| "hframes (HFailed e f ack r) = [f, ack]"
| "hframes (HClose f ack r) = [f, ack]"
| "hframes (HFinish f ack r) = [f, ack]"
| "hframes HRelease = []"
| "hframes HLeave = []"
| "hframes HDone = []"

definition handler_ok :: "hpc \<Rightarrow> bool" where
  "handler_ok h \<longleftrightarrow> (\<forall>f \<in> set (hframes h). frame_ok f) \<and> (\<forall>f \<in> set (tl (hframes h)). f_Messages f = [])"

text \<open>The representation invariant: clean pools, a consistent connection, well-formed frames.\<close>

definition sys_ok :: "system \<Rightarrow> bool" where
  "sys_ok s \<longleftrightarrow> request_pool_ok (w_pools (s_w s)) \<and> conn_ok (w_conn (s_w s)) \<and>
     (\<forall>f \<in> set (rframes (s_read s)). frame_ok f) \<and> (\<forall>h \<in> set (s_hs s). handler_ok h)"

section \<open>Effects of the operations\<close>

text \<open>A connection whose read deadline may have moved and nothing else.\<close>

definition conn_quiet :: "Conn \<Rightarrow> Conn \<Rightarrow> bool" where
  "conn_quiet c c' \<longleftrightarrow> conn_ok c' \<and> t_closed c' = t_closed c \<and> log_of c' = log_of c"

definition pools_add :: "int \<Rightarrow> int \<Rightarrow> int \<Rightarrow> request_pools \<Rightarrow> request_pools \<Rightarrow> bool" where
  "pools_add df dm dr ps ps' \<longleftrightarrow> request_pool_ok ps' \<and> frame_out ps' = frame_out ps + df \<and>
     msg_out ps' = msg_out ps + dm \<and> req_out ps' = req_out ps + dr"

lemma pools_keep_add: "pools_keep ps ps' = pools_add 0 0 0 ps ps'"
  by (simp add: pools_keep_def pools_add_def)

lemma pools_add_trans [trans]:
  "pools_add a b c ps qs \<Longrightarrow> pools_add a' b' c' qs rs \<Longrightarrow> pools_add (a + a') (b + b') (c + c') ps rs"
  by (simp add: pools_add_def)

lemma SetReadDeadline_quiet:
  assumes "conn_ok c" and "SetReadDeadline t c = (err, c')"
  shows "conn_quiet c c' \<and> (err = None \<longrightarrow> nc_rdeadline (t_conn c') = t) \<and>
    (err \<noteq> None \<longrightarrow> nc_rdeadline (t_conn c') = nc_rdeadline (t_conn c))"
  using assms
  by (auto simp: SetReadDeadline_def net_SetReadDeadline_def net_next_def conn_quiet_def conn_ok_def log_of_def
      case_prod_beta split: if_splits)

lemma release_adds:
  "request_pool_ok ps \<Longrightarrow> frame_ok f \<Longrightarrow>
     pools_add (- 1) (- int (length (f_Messages f))) 0 ps (ReleaseFrame f ps)"
  by (simp add: pools_add_def ReleaseFrame_request_ok frame_out_simps msg_out_ReleaseFrame requestPool_frame)

lemma acquire_adds:
  assumes "request_pool_ok ps" and "AcquireFrame ps = (f, ps')"
  shows "frame_clean f \<and> pools_add 1 0 0 ps ps'"
  using AcquireFrame_request_ok [OF assms] assms(2) frame_out_simps(1) [of ps] msg_out_AcquireFrame [of ps]
    requestPool_frame(3) [of ps]
  by (simp add: pools_add_def)

lemma Messages_Decode_keep_request:
  "requestPool (snd (snd (Messages_Decode m buf ps))) = requestPool (ps :: 'x request_pools_scheme) \<and>
   req_out (snd (snd (Messages_Decode m buf ps))) = req_out (ps :: 'x request_pools_scheme)"
  by (rule conjI; rule Messages_Decode_invariant; simp add: keep_simps)

lemma read_body_keep_request:
  assumes "read_body f buf ps = (err, f', ps')"
  shows "requestPool ps' = requestPool (ps :: 'x request_pools_scheme) \<and> req_out ps' = req_out ps"
proof -
  have "requestPool (snd (snd (read_payload g b ps))) = requestPool ps \<and>
    req_out (snd (snd (read_payload g b ps))) = req_out ps" for g b
    using Messages_Decode_keep_request [of "f_Messages g" b ps]
    by (auto simp: read_payload_def case_prod_beta split: option.splits sum.splits)
  with assms show ?thesis
    by (auto simp: read_body_def Let_def case_prod_beta split: if_splits) (metis snd_conv)+
qed

lemma ReadLimit_adds:
  assumes "frame_ok f" and "request_pool_ok ps"
    and "Frame_ReadLimit f src limit accept ps = (err, f', src', ps')"
  shows "frame_ok f' \<and> pools_add 0 (int (length (f_Messages f')) - int (length (f_Messages f))) 0 ps ps' \<and>
    (err = None \<longrightarrow> acceptsType accept (f_Type f'))"
proof -
  have tmp: "length (f_tmp f) = 5" using assms(1) by (simp add: frame_ok_def)
  have "requestPool ps' = requestPool ps \<and> req_out ps' = req_out ps \<and> (err = None \<longrightarrow> acceptsType accept (f_Type f'))"
    using assms(3) tmp
  proof (cases rule: Frame_ReadLimit_cases)
    case (body hdr s g buf)
    with read_body_keep_request [OF body(6)] read_body_header [OF body(6)] header_gate_None [OF body(4)]
    show ?thesis by simp
  qed auto
  with Frame_ReadLimit_ok [OF assms(1) _ assms(3)] assms(2) show ?thesis
    by (auto simp: request_pool_ok_def pools_add_def)
qed

text \<open>\<open>disconnect\<close> as one shape: the latch and the once are set afterwards, and a frame can
  have been offered only if the caller was the first.\<close>

lemma disconnect_shape:
  assumes "request_pool_ok (w_pools w)" and "conn_ok (w_conn w)"
  obtains c ps where
    "disconnect now code msg w =
       w\<lparr>w_goodbyeSent := w_goodbyeSent w \<or> \<not> w_disconnectOnce w, w_conn := c, w_pools := ps, w_disconnectOnce := True\<rparr>"
    "conn_grows (\<lambda>b. \<not> w_disconnectOnce w \<and> wire_type b = TypeAgentDisconnect) (w_conn w) c"
    "pools_keep (w_pools w) ps"
proof (cases rule: disconnect_spec [OF assms, where now = now and code = code and msg = msg])
  case 1
  with assms conn_grows_refl [OF assms(2)] show ?thesis
    by (intro that [where c = "w_conn w" and ps = "w_pools w"]) (auto simp: pools_keep_def)
next
  case (2 c ps)
  then show ?thesis by (intro that [where c = c and ps = ps]) (auto elim: conn_grows_mono)
qed

section \<open>Steps of the read loop\<close>

text \<open>A report to the peer, or none.\<close>

definition reports :: "worker \<Rightarrow> worker \<Rightarrow> bool" where
  "reports w w' \<longleftrightarrow> w' = w \<or> (\<exists>now code msg. w' = disconnect now code msg w)"

lemma read_failed_reports:
  assumes "read_failed now err w = (out, w')"
  shows "reports w w' \<and> ((out = Drain \<and> shuttingDown w \<and> w' = w) \<or> (\<exists>r. out = Return r))"
  using assms
  by (auto simp: read_failed_def reports_def split: if_splits read_error.splits)

lemma dispatch_cases:
  assumes "request_pool_ok (w_pools w)" and "conn_ok (w_conn w)" and "dispatch tx now f w = (out, w')"
  obtains
    (hello) m e r c ps where "\<not> w_ready w" "pools_keep (w_pools w) ps"
      "w' = w\<lparr>w_maxFrameSize := m, w_engineID := e, w_conn := c, w_pools := ps, w_ready := r\<rparr>"
      "conn_grows (\<lambda>b. wire_type b = TypeAgentHello) (w_conn w) c" "(out = Next \<and> r) \<or> (\<exists>x. out = Return x \<and> \<not> r)"
  | (refuse) x code msg where "out = Return x" "w' = disconnect now code msg w"
  | (bye) x c ps where "w_ready w" "out = Return x" "w' = w\<lparr>w_goodbyeSent := True, w_conn := c, w_pools := ps\<rparr>"
      "conn_grows (\<lambda>b. wire_type b = TypeAgentDisconnect) (w_conn w) c" "pools_keep (w_pools w) ps"
  | (notify) "w_ready w" "out = NeedSlot" "w' = w" "f_Type f = TypeNotify"
proof -
  consider (h) "f_Type f = TypeHAProxyHello" "\<not> w_ready w"
    | (d) "f_Type f = TypeHAProxyDisconnect" "w_ready w"
    | (n) "f_Type f = TypeNotify" "w_ready w"
    | (r) "\<exists>x code msg. (out, w') = (Return x, disconnect now code msg w)"
    using assms(3) by (auto simp: dispatch_def split: if_splits)
  then show thesis
  proof cases
    case h
    show thesis
    proof (cases "negotiate (tx_quote tx) f")
      case (Inl e)
      with h assms(3) show thesis by (intro refuse) (auto simp: dispatch_def)
    next
      case (Inr agreed)
      let ?w = "w\<lparr>w_maxFrameSize := neg_maxFrameSize agreed, w_engineID := f_EngineID f\<rparr>"
      obtain err u where send: "sendAgentHello now agreed ?w = (err, u)" by fastforce
      from sendAgentHello_spec [OF _ _ send] assms(1,2) obtain c ps where
        u: "u = ?w\<lparr>w_conn := c, w_pools := ps\<rparr>" and g: "conn_grows (\<lambda>b. wire_type b = TypeAgentHello) (w_conn w) c"
        and k: "pools_keep (w_pools w) ps" by auto
      from h Inr send assms(3) have "(out, w') = (case err of Some e \<Rightarrow> (Return (Some (RunSendHello e)), u)
          | None \<Rightarrow> if f_Healthcheck f then (Return None, u) else (Next, u\<lparr>w_ready := True\<rparr>))"
        by (simp add: dispatch_def split: option.split)
      with h(2) u g k show thesis
        by (intro hello [where m = "neg_maxFrameSize agreed" and e = "f_EngineID f" and r = "w_ready w'" and c = c and ps = ps])
           (auto split: option.splits if_splits)
    qed
  next
    case d
    obtain err u where send: "sendAgentDisconnect now statusCodeNormal (gostr ''connection closed by server'') w = (err, u)"
      by fastforce
    from sendAgentDisconnect_spec [OF assms(1,2) send] d send assms(3) show thesis
      by (auto simp: dispatch_def frame_type_defs split: option.splits intro: bye)
  next
    case n
    with assms(3) show thesis by (intro notify) (auto simp: dispatch_def frame_type_defs)
  next
    case r
    then show thesis by (auto intro: refuse)
  qed
qed

definition arming :: "rpc \<Rightarrow> Frame \<Rightarrow> bool" where
  "arming pc f \<longleftrightarrow> pc \<in> {RArm f, RArmSet f, RArmRecheck f}"

lemma arm_step:
  assumes "conn_ok (w_conn w)" and "r = arm_expired now w \<or> r = arm_set now w \<or> r = arm_recheck now w"
  obtains c err where "r = (err, w\<lparr>w_conn := c\<rparr>)" "conn_quiet (w_conn w) c"
    "(r = arm_expired now w \<or> r = arm_recheck now w) \<and> err = None \<and> shuttingDown w \<longrightarrow> nc_rdeadline (t_conn c) = Some now"
proof -
  have refl: "conn_quiet (w_conn w) (w_conn w)" using assms(1) by (simp add: conn_quiet_def)
  have e: "\<exists>c err. arm_expired now w = (err, w\<lparr>w_conn := c\<rparr>) \<and> conn_quiet (w_conn w) c \<and>
      (err = None \<longrightarrow> nc_rdeadline (t_conn c) = Some now)"
    using SetReadDeadline_quiet [OF assms(1), of "Some now"]
    by (cases "SetReadDeadline (Some now) (w_conn w)") (auto simp: arm_expired_def)
  have s: "\<exists>c err. arm_set now w = (err, w\<lparr>w_conn := c\<rparr>) \<and> conn_quiet (w_conn w) c"
    using SetReadDeadline_quiet [OF assms(1)]
    by (cases "SetReadDeadline (if readTimeout w > 0 then Some (now + readTimeout w) else None) (w_conn w)")
       (auto simp: arm_set_def Let_def)
  show thesis
  proof (cases "shuttingDown w \<and> r \<noteq> arm_set now w \<or> r = arm_expired now w")
    case True
    with assms(2) have "r = arm_expired now w" by (auto simp: arm_recheck_def)
    with e that show thesis by blast
  next
    case False
    show thesis
    proof (cases "r = arm_set now w")
      case True
      with False s show thesis
      proof (elim exE conjE)
        fix c err
        assume a: "arm_set now w = (err, w\<lparr>w_conn := c\<rparr>)" "conn_quiet (w_conn w) c"
        show thesis
        proof (cases "r = arm_recheck now w \<and> shuttingDown w")
          case True
          with False show thesis by (simp add: arm_recheck_def)
        next
          case no: False
          with True False a show thesis by (intro that [of err c]) auto
        qed
      qed
    next
      case no: False
      with False assms(2) have "\<not> shuttingDown w" "r = (None, w)" by (auto simp: arm_recheck_def)
      with refl show thesis by (intro that [of None "w_conn w"]) auto
    qed
  qed
qed

lemma armed_cases:
  assumes "conn_ok (w_conn (s_w s))" and "s' = armed f pc r s"
    and "r = arm_expired (s_now s) (s_w s) \<or> r = arm_set (s_now s) (s_w s) \<or> r = arm_recheck (s_now s) (s_w s)"
  obtains (ok) c where "s' = s\<lparr>s_w := (s_w s)\<lparr>w_conn := c\<rparr>, s_read := pc\<rparr>" "conn_quiet (w_conn (s_w s)) c"
      "(r = arm_expired (s_now s) (s_w s) \<or> r = arm_recheck (s_now s) (s_w s)) \<and> shuttingDown (s_w s) \<longrightarrow>
         nc_rdeadline (t_conn c) = Some (s_now s)"
    | (fail) c e where "s' = s\<lparr>s_w := drop_frame f ((s_w s)\<lparr>w_conn := c\<rparr>), s_read := RClose (Some e)\<rparr>"
      "conn_quiet (w_conn (s_w s)) c"
proof -
  obtain c err where r: "r = (err, (s_w s)\<lparr>w_conn := c\<rparr>)" "conn_quiet (w_conn (s_w s)) c"
    "(r = arm_expired (s_now s) (s_w s) \<or> r = arm_recheck (s_now s) (s_w s)) \<and> err = None \<and> shuttingDown (s_w s) \<longrightarrow>
       nc_rdeadline (t_conn c) = Some (s_now s)"
    by (rule arm_step [OF assms(1,3)])
  show thesis
  proof (cases err)
    case None
    show thesis by (rule ok [of c]) (use r assms(2) None in \<open>auto simp: armed_def\<close>)
  next
    case (Some e)
    with r assms(2) show thesis by (intro fail [where c = c and e = "RunDeadline e"]) (simp_all add: armed_def)
  qed
qed

text \<open>With no other event in between, the three steps of arming are \<open>armReadDeadline\<close>.\<close>

lemma shuttingDown_arm_set: "arm_set now w = (err, w') \<Longrightarrow> shuttingDown w' = shuttingDown w"
  by (auto simp: arm_set_def shuttingDown_def Let_def split: prod.splits)

lemma armReadDeadline_steps:
  assumes "s_read s = RArm f"
  shows "\<exists>n \<le> 3. run_events (fire tx) (replicate n (EvRead src pick)) s =
    Some (armed f (RRead f) (armReadDeadline (s_now s) (s_w s)) s)"
proof (cases "shuttingDown (s_w s)")
  case True
  with assms show ?thesis
    by (intro exI [of _ 1]) (simp add: fire_def read_step_def armReadDeadline_def Let_def)
next
  case False
  obtain err w where a: "arm_set (s_now s) (s_w s) = (err, w)" by fastforce
  show ?thesis
  proof (cases err)
    case None
    with assms False a show ?thesis
      by (intro exI [of _ 3]) (simp add: fire_def read_step_def armReadDeadline_def armed_def Let_def numeral_3_eq_3
          split: prod.split option.split)
  next
    case (Some e)
    with assms False a show ?thesis
      by (intro exI [of _ 2]) (simp add: fire_def read_step_def armReadDeadline_def armed_def Let_def numeral_2_eq_2)
  qed
qed

lemma read_step_cases:
  assumes "sys_ok s" and "read_step tx src pick s = Some s'"
  obtains
    (acquire) f ps where "s_read s = RTop" "s' = s\<lparr>s_w := (s_w s)\<lparr>w_pools := ps\<rparr>, s_read := RArm f\<rparr>"
      "frame_clean f" "pools_add 1 0 0 (w_pools (s_w s)) ps"
  | (arm) f c pc where "arming (s_read s) f" "s' = s\<lparr>s_w := (s_w s)\<lparr>w_conn := c\<rparr>, s_read := pc\<rparr>"
      "pc \<in> {RArmSet f, RArmRecheck f, RRead f}" "conn_quiet (w_conn (s_w s)) c"
      "pc = RRead f \<and> shuttingDown (s_w s) \<longrightarrow> nc_rdeadline (t_conn c) = Some (s_now s)"
  | (arm_fail) f c e where "arming (s_read s) f"
      "s' = s\<lparr>s_w := drop_frame f ((s_w s)\<lparr>w_conn := c\<rparr>), s_read := RClose (Some e)\<rparr>" "conn_quiet (w_conn (s_w s)) c"
  | (read) f f' ps where "s_read s = RRead f" "s' = s\<lparr>s_w := (s_w s)\<lparr>w_pools := ps\<rparr>, s_read := RDispatch f'\<rparr>"
      "frame_ok f'" "pools_add 0 (int (length (f_Messages f')) - int (length (f_Messages f))) 0 (w_pools (s_w s)) ps"
  | (read_fail) f f' ps w' pc where "s_read s = RRead f" "s' = s\<lparr>s_w := w', s_read := pc\<rparr>"
      "frame_ok f'" "pools_add 0 (int (length (f_Messages f')) - int (length (f_Messages f))) 0 (w_pools (s_w s)) ps"
      "reports (drop_frame f' ((s_w s)\<lparr>w_pools := ps\<rparr>)) w'"
      "(pc = RDrain None \<and> w' = drop_frame f' ((s_w s)\<lparr>w_pools := ps\<rparr>)) \<or> (\<exists>r. pc = RClose r)"
  | (hello) f m e r c ps pc where "s_read s = RDispatch f" "\<not> w_ready (s_w s)"
      "s' = s\<lparr>s_w := drop_frame f ((s_w s)\<lparr>w_maxFrameSize := m, w_engineID := e, w_conn := c, w_pools := ps, w_ready := r\<rparr>), s_read := pc\<rparr>"
      "conn_grows (\<lambda>b. wire_type b = TypeAgentHello) (w_conn (s_w s)) c" "pools_keep (w_pools (s_w s)) ps"
      "(pc = RTop \<and> r) \<or> (\<exists>x. pc = RClose x \<and> \<not> r)"
  | (refuse) f x code msg where "s_read s = RDispatch f"
      "s' = s\<lparr>s_w := drop_frame f (disconnect (s_now s) code msg (s_w s)), s_read := RClose x\<rparr>"
  | (bye) f x c ps where "s_read s = RDispatch f" "w_ready (s_w s)"
      "s' = s\<lparr>s_w := drop_frame f ((s_w s)\<lparr>w_goodbyeSent := True, w_conn := c, w_pools := ps\<rparr>), s_read := RClose x\<rparr>"
      "conn_grows (\<lambda>b. wire_type b = TypeAgentDisconnect) (w_conn (s_w s)) c" "pools_keep (w_pools (s_w s)) ps"
  | (notify) f where "s_read s = RDispatch f" "w_ready (s_w s)" "s' = s\<lparr>s_read := RAcquire f\<rparr>"
  | (wait) f where "s_read s = RAcquire f" "s' = s\<lparr>s_read := RSlot f\<rparr>" "w_slots (s_w s) \<noteq> None"
  | (slot_drain) f where "s_read s \<in> {RAcquire f, RSlot f}" "s' = s\<lparr>s_read := RDrain (Some f)\<rparr>" "shuttingDown (s_w s)"
  | (slot) f w' where "s_read s \<in> {RAcquire f, RSlot f}" "s' = s\<lparr>s_w := w', s_read := RSpawn f\<rparr>"
      "(w_slots (s_w s) = None \<and> w' = s_w s) \<or>
       (\<exists>cap held. w_slots (s_w s) = Some (cap, held) \<and> held < cap \<and> w' = (s_w s)\<lparr>w_slots := Some (cap, Suc held)\<rparr>)"
  | (spawned) f where "s_read s = RSpawn f" "s' = spawn f s"
  | (drain) fo where "s_read s = RDrain fo" "w_inflight (s_w s) = 0" "s' = drained fo s"
  | (closing) r where "s_read s = RClose r" "s' = s\<lparr>s_w := close (s_w s), s_read := RCancel r\<rparr>"
  | (cancel) r where "s_read s = RCancel r" "s' = s\<lparr>s_w := (s_w s)\<lparr>w_cancelled := True\<rparr>, s_read := RStopped r\<rparr>"
proof -
  have pool: "request_pool_ok (w_pools (s_w s))" and conn: "conn_ok (w_conn (s_w s))"
    using assms(1) by (simp_all add: sys_ok_def)
  note step = assms(2) [unfolded read_step_def Let_def]
  have arm_done: thesis if "arming (s_read s) f" and "s' = armed f pc r s" and
    pc: "(pc = RRead f \<and> (r = arm_expired (s_now s) (s_w s) \<or> r = arm_recheck (s_now s) (s_w s))) \<or>
      (pc = RArmRecheck f \<and> r = arm_set (s_now s) (s_w s))" for f pc r
  proof -
    from pc have r: "r = arm_expired (s_now s) (s_w s) \<or> r = arm_set (s_now s) (s_w s) \<or> r = arm_recheck (s_now s) (s_w s)"
      by auto
    show thesis
    proof (cases rule: armed_cases [OF conn that(2) r])
      case (1 c)
      show thesis by (rule arm [OF that(1) 1(1) _ 1(2)]) (use pc 1(3) in auto)
    next
      case (2 c e)
      show thesis by (rule arm_fail [OF that(1) 2])
    qed
  qed
  show thesis
  proof (cases "s_read s")
    case RTop
    obtain f ps where a: "AcquireFrame (w_pools (s_w s)) = (f, ps)" by fastforce
    from acquire_adds [OF pool a] RTop a step show thesis by (intro acquire [where f = f and ps = ps]) auto
  next
    case (RArm f)
    show thesis
    proof (cases "shuttingDown (s_w s)")
      case True
      with RArm step have "s' = armed f (RRead f) (arm_expired (s_now s) (s_w s)) s" by simp
      with RArm show thesis by (intro arm_done) (auto simp: arming_def)
    next
      case False
      with RArm step conn show thesis
        by (intro arm [where f = f and c = "w_conn (s_w s)" and pc = "RArmSet f"])
           (auto simp: arming_def conn_quiet_def)
    qed
  next
    case (RArmSet f)
    with step have "s' = armed f (RArmRecheck f) (arm_set (s_now s) (s_w s)) s" by simp
    with RArmSet show thesis by (intro arm_done) (auto simp: arming_def)
  next
    case (RArmRecheck f)
    with step have "s' = armed f (RRead f) (arm_recheck (s_now s) (s_w s)) s" by simp
    with RArmRecheck show thesis by (intro arm_done) (auto simp: arming_def)
  next
    case (RRead f)
    obtain err f' src' ps where r: "Frame_ReadLimit f src (frameLimit (s_w s)) (Some FromHAProxy) (w_pools (s_w s)) =
        (err, f', src', ps)" by (metis prod.exhaust)
    have "frame_ok f" using assms(1) RRead by (simp add: sys_ok_def)
    note adds = ReadLimit_adds [OF this pool r]
    from RRead step r have s': "s' = read_done err f' ((s_w s)\<lparr>w_pools := ps\<rparr>) s" by simp
    show thesis
    proof (cases err)
      case None
      with RRead adds s' show thesis by (intro read [where f = f and f' = f' and ps = ps]) (auto simp: read_done_def)
    next
      case (Some e)
      obtain out w' where f: "read_failed (s_now s) e (drop_frame f' ((s_w s)\<lparr>w_pools := ps\<rparr>)) = (out, w')" by fastforce
      from read_failed_reports [OF f] RRead adds s' Some f show thesis
        by (intro read_fail [where f = f and f' = f' and ps = ps and w' = w' and pc = "s_read s'"])
           (auto simp: read_done_def)
    qed
  next
    case (RDispatch f)
    obtain out w' where d: "dispatch tx (s_now s) f (s_w s) = (out, w')" by fastforce
    with RDispatch step have s': "s' = dispatched f (out, w') s" by simp
    show thesis
    proof (cases rule: dispatch_cases [OF pool conn d])
      case (1 m e r c ps)
      with RDispatch s' show thesis
        by (intro hello [where f = f and m = m and e = e and r = r and c = c and ps = ps and pc = "s_read s'"])
           (auto simp: dispatched_def)
    next
      case (2 x code msg)
      with RDispatch s' show thesis by (intro refuse) (auto simp: dispatched_def)
    next
      case (3 x c ps)
      with RDispatch s' show thesis by (intro bye) (auto simp: dispatched_def)
    next
      case 4
      with RDispatch s' show thesis by (intro notify) (auto simp: dispatched_def)
    qed
  next
    case (RAcquire f)
    with step wait slot_drain slot [where f = f and w' = "s_w s"] show thesis
      by (auto simp: acquireSlot_def split: if_splits)
  next
    case (RSlot f)
    with step slot_drain slot show thesis
      by (fastforce simp: acquireSlot_select_def split: option.splits if_splits)
  next
    case (RSpawn f)
    with step spawned show thesis by auto
  next
    case (RDrain fo)
    with step drain show thesis by (auto split: if_splits)
  next
    case (RClose r)
    with step closing show thesis by auto
  next
    case (RCancel r)
    with step cancel show thesis by auto
  next
    case (RStopped r)
    with step show thesis by simp
  qed
qed

section \<open>Steps of a NOTIFY goroutine\<close>

lemma notify_request_adds:
  assumes "request_pool_ok (w_pools w)" and "notify_request f w = (r, w')"
  shows "\<exists>ps. w' = w\<lparr>w_pools := ps\<rparr> \<and> pools_add 0 0 1 (w_pools w) ps \<and>
    r_StreamID r = f_StreamID f \<and> r_FrameID r = f_FrameID f \<and> r_EngineID r = w_engineID w \<and>
    r_Messages r = Some (f_Messages f) \<and> r_Actions r = []"
proof -
  obtain q ps where a: "AcquireRequest (w_pools w) = (q, ps)" by fastforce
  from AcquireRequest_ok [OF assms(1) a] have "q = newRequest" "request_pool_ok ps" by simp_all
  with assms(2) a req_out_simps(1,3,5) [of "w_pools w"] show ?thesis
    by (auto simp: notify_request_def pools_add_def newRequest_def)
qed

lemma notify_ack_adds:
  assumes "request_pool_ok (w_pools w)" and "conn_ok (w_conn w)" and "notify_ack now f req w = (err, ack, w')"
  shows "\<exists>c ps. w' = w\<lparr>w_pools := ps, w_conn := c\<rparr> \<and> frame_ok ack \<and> f_Messages ack = [] \<and>
    pools_add 1 0 0 (w_pools w) ps \<and>
    conn_grows (\<lambda>b. \<not> w_goodbyeSent w \<and> wire_type b = TypeAgentAck \<and> wire_ids b = (f_StreamID f, f_FrameID f) \<and>
      wire_len b \<le> frameLimit w) (w_conn w) c"
proof -
  obtain g ps where a: "AcquireFrame (w_pools w) = (g, ps)" by fastforce
  from acquire_adds [OF assms(1) a] have g: "frame_clean g" and p: "pools_add 1 0 0 (w_pools w) ps" by simp_all
  let ?ack = "g\<lparr>f_Type := TypeAgentAck, f_StreamID := f_StreamID f, f_FrameID := f_FrameID f, f_Actions := r_Actions req\<rparr>"
  have ok: "frame_ok ?ack" "f_Messages ?ack = []" using frame_clean_fields [OF g] by (simp_all add: frame_ok_def)
  have w: "writeFrame now ?ack (w\<lparr>w_pools := ps\<rparr>) = (err, ack, w')"
    using assms(3) a by (simp add: notify_ack_def)
  have lim: "frameLimit (w\<lparr>w_pools := ps\<rparr>) = frameLimit w" by (simp add: frameLimit_def)
  from writeFrame_spec [OF ok(1) _ w, unfolded lim] assms(2) obtain c where
    "w' = w\<lparr>w_pools := ps, w_conn := c\<rparr>" "frame_ok ack" "f_Messages ack = f_Messages ?ack"
    "conn_grows (\<lambda>b. \<not> w_goodbyeSent w \<and> wire_type b = TypeAgentAck \<and> wire_ids b = (f_StreamID f, f_FrameID f) \<and>
      wire_len b \<le> frameLimit w) (w_conn w) c" by auto
  with ok(2) p show ?thesis by (intro exI [of _ c] exI [of _ ps]) simp
qed

lemma handler_next_cases:
  assumes "request_pool_ok (w_pools w)" and "conn_ok (w_conn w)" and "handler_next tx now req h w = Some (h', w')"
  obtains
    (start) f r ps where "h = HStart f" "h' = HRun f r" "w' = w\<lparr>w_pools := ps\<rparr>" "pools_add 0 0 1 (w_pools w) ps"
  | (ack) f r ack c ps where "h = HRun f r" "h' = HFinish f ack req \<or> (\<exists>e. h' = HFailed e f ack req)"
      "w' = w\<lparr>w_pools := ps, w_conn := c\<rparr>" "frame_ok ack" "f_Messages ack = []" "pools_add 1 0 0 (w_pools w) ps"
      "conn_grows (\<lambda>b. \<not> w_goodbyeSent w \<and> wire_type b = TypeAgentAck \<and> wire_ids b = (f_StreamID f, f_FrameID f) \<and>
         wire_len b \<le> frameLimit w) (w_conn w) c"
  | (failed) e f ack r where "h = HFailed e f ack r" "h' = HClose f ack r" "reports w w'"
  | (closing) f ack r where "h = HClose f ack r" "h' = HFinish f ack r" "w' = close w"
  | (finish) f ack r where "h = HFinish f ack r" "h' = HRelease" "w' = notify_release f ack r w"
  | (unslot) "h = HRelease" "h' = HLeave" "w' = releaseSlot w"
  | (leave) "h = HLeave" "h' = HDone" "w' = notify_done w"
proof (cases h)
  case (HStart f)
  obtain r v where n: "notify_request f w = (r, v)" by fastforce
  from notify_request_adds [OF assms(1) n] n HStart assms(3) show ?thesis
    by (auto simp: handler_next_def intro: start)
next
  case (HRun f r)
  obtain err ack0 v where n: "notify_ack now f req w = (err, ack0, v)" by (metis prod.exhaust)
  from notify_ack_adds [OF assms(1,2) n] obtain c ps where
    "v = w\<lparr>w_pools := ps, w_conn := c\<rparr>" "frame_ok ack0" "f_Messages ack0 = []" "pools_add 1 0 0 (w_pools w) ps"
    "conn_grows (\<lambda>b. \<not> w_goodbyeSent w \<and> wire_type b = TypeAgentAck \<and> wire_ids b = (f_StreamID f, f_FrameID f) \<and>
         wire_len b \<le> frameLimit w) (w_conn w) c" by blast
  moreover have "w' = v" "h' = HFinish f ack0 req \<or> (\<exists>e. h' = HFailed e f ack0 req)"
    using HRun n assms(3) by (auto simp: handler_next_def split: option.splits ack_error.splits)
  ultimately show ?thesis using HRun by (intro ack) simp_all
next
  case (HFailed e f ack r)
  with assms(3) show ?thesis
    by (intro failed [where e = e and f = f and ack = ack and r = r])
       (auto simp: handler_next_def notify_failed_def reports_def split: ack_error.splits)
next
  case (HClose f ack r)
  with assms(3) show ?thesis by (intro closing) (auto simp: handler_next_def)
next
  case (HFinish f ack r)
  with assms(3) show ?thesis by (intro finish) (auto simp: handler_next_def)
next
  case HRelease
  with assms(3) show ?thesis by (intro unslot) (auto simp: handler_next_def)
next
  case HLeave
  with assms(3) show ?thesis by (intro leave) (auto simp: handler_next_def)
next
  case HDone
  with assms(3) show ?thesis by (simp add: handler_next_def)
qed

lemma handler_step_cases:
  assumes "handler_step tx i req s = Some s'"
  obtains h w where "i < length (s_hs s)" "handler_next tx (s_now s) req (s_hs s ! i) (s_w s) = Some (h, w)"
    "s' = s\<lparr>s_w := w, s_hs := (s_hs s)[i := h]\<rparr>"
  using assms by (auto simp: handler_step_def split: if_splits option.splits)

end
