(* ===== verification/Worker_Invariants.thy ===== *)
theory Worker_Invariants
  imports Worker_Steps
begin

text \<open>
  The invariants of one connection: the representation invariant, the accounting of handlers,
  slots and pooled objects, the shape of what has been written, the correspondence of ACKs and
  NOTIFYs, and the wake-up of a draining read loop. Each is kept by every event.
\<close>

section \<open>Effects used by all of them\<close>

lemma reports_shape:
  assumes "reports w w'" and "request_pool_ok (w_pools w)" and "conn_ok (w_conn w)"
  obtains g d c ps where
    "w' = w\<lparr>w_goodbyeSent := g, w_conn := c, w_pools := ps, w_disconnectOnce := d\<rparr>"
    "conn_grows (\<lambda>b. \<not> w_disconnectOnce w \<and> d \<and> g \<and> wire_type b = TypeAgentDisconnect) (w_conn w) c"
    "pools_keep (w_pools w) ps" "w_goodbyeSent w \<longrightarrow> g" "w_disconnectOnce w \<longrightarrow> d"
proof -
  have refl: "pools_keep (w_pools w) (w_pools w)" using assms(2) by (simp add: pools_keep_def)
  consider "w' = w" | now code msg where "w' = disconnect now code msg w"
    using assms(1) by (auto simp: reports_def)
  then show thesis
  proof cases
    case 1
    with refl conn_grows_refl [OF assms(3)] show thesis
      by (intro that [where g = "w_goodbyeSent w" and d = "w_disconnectOnce w" and c = "w_conn w" and ps = "w_pools w"])
         simp_all
  next
    case 2
    obtain c ps where
      "disconnect now code msg w = w\<lparr>w_goodbyeSent := w_goodbyeSent w \<or> \<not> w_disconnectOnce w, w_conn := c,
         w_pools := ps, w_disconnectOnce := True\<rparr>"
      "conn_grows (\<lambda>b. \<not> w_disconnectOnce w \<and> wire_type b = TypeAgentDisconnect) (w_conn w) c"
      "pools_keep (w_pools w) ps"
      by (rule disconnect_shape [OF assms(2,3)])
    with 2 show thesis
      by (intro that [where g = "w_goodbyeSent w \<or> \<not> w_disconnectOnce w" and d = True and c = c and ps = ps])
         (auto elim: conn_grows_mono)
  qed
qed

lemma reports_ok:
  assumes "reports w w'" and "request_pool_ok (w_pools w)" and "conn_ok (w_conn w)"
  shows "request_pool_ok (w_pools w') \<and> conn_ok (w_conn w')"
  by (rule reports_shape [OF assms]) (simp add: conn_grows_def pools_keep_def)

lemma reports_disconnect: "reports w (disconnect now code msg w)"
  by (auto simp: reports_def)

lemma drop_frame_fields [simp]:
  "w_conn (drop_frame f w) = w_conn w" "w_ready (drop_frame f w) = w_ready w"
  "w_maxFrameSize (drop_frame f w) = w_maxFrameSize w" "w_disconnectOnce (drop_frame f w) = w_disconnectOnce w"
  "w_goodbyeSent (drop_frame f w) = w_goodbyeSent w" "w_inflight (drop_frame f w) = w_inflight w"
  "w_slots (drop_frame f w) = w_slots w" "w_done (drop_frame f w) = w_done w"
  "w_pools (drop_frame f w) = ReleaseFrame f (w_pools w)"
  by (simp_all add: drop_frame_def)

lemma close_conn: "conn_ok c \<Longrightarrow> conn_ok (snd (Close c)) \<and> log_of (snd (Close c)) = log_of c \<and>
    nc_rdeadline (t_conn (snd (Close c))) = nc_rdeadline (t_conn c)"
  using conn_ok_do [of c OpClose] Close_simps(2) [of c]
  by (simp add: Close_def net_Close_def net_next_def case_prod_beta Let_def)

lemma close_fields [simp]:
  "w_ready (close w) = w_ready w" "w_maxFrameSize (close w) = w_maxFrameSize w"
  "w_disconnectOnce (close w) = w_disconnectOnce w" "w_goodbyeSent (close w) = w_goodbyeSent w"
  "w_inflight (close w) = w_inflight w" "w_slots (close w) = w_slots w" "w_done (close w) = w_done w"
  "w_pools (close w) = w_pools w" "w_conn (close w) = snd (Close (w_conn w))"
  by (simp_all add: close_def)

lemma notify_release_fields [simp]:
  "w_conn (notify_release f ack r w) = w_conn w" "w_ready (notify_release f ack r w) = w_ready w"
  "w_maxFrameSize (notify_release f ack r w) = w_maxFrameSize w"
  "w_disconnectOnce (notify_release f ack r w) = w_disconnectOnce w"
  "w_goodbyeSent (notify_release f ack r w) = w_goodbyeSent w"
  "w_inflight (notify_release f ack r w) = w_inflight w" "w_done (notify_release f ack r w) = w_done w"
  "w_slots (notify_release f ack r w) = w_slots w"
  "w_pools (notify_release f ack r w) = ReleaseFrame f (ReleaseRequest r (ReleaseFrame ack (w_pools w)))"
  by (simp_all add: notify_release_def Let_def)

lemma releaseSlot_fields [simp]:
  "w_conn (releaseSlot w) = w_conn w" "w_ready (releaseSlot w) = w_ready w"
  "w_maxFrameSize (releaseSlot w) = w_maxFrameSize w" "w_disconnectOnce (releaseSlot w) = w_disconnectOnce w"
  "w_goodbyeSent (releaseSlot w) = w_goodbyeSent w" "w_inflight (releaseSlot w) = w_inflight w"
  "w_done (releaseSlot w) = w_done w" "w_pools (releaseSlot w) = w_pools w"
  "w_slots (releaseSlot w) = map_option (\<lambda>(cap, held). (cap, held - 1)) (w_slots w)"
  by (simp_all add: releaseSlot_def split: option.split)

lemma notify_done_fields [simp]:
  "w_conn (notify_done w) = w_conn w" "w_ready (notify_done w) = w_ready w"
  "w_maxFrameSize (notify_done w) = w_maxFrameSize w" "w_disconnectOnce (notify_done w) = w_disconnectOnce w"
  "w_goodbyeSent (notify_done w) = w_goodbyeSent w" "w_inflight (notify_done w) = w_inflight w - 1"
  "w_done (notify_done w) = w_done w" "w_pools (notify_done w) = w_pools w" "w_slots (notify_done w) = w_slots w"
  by (simp_all add: notify_done_def)

lemma shuttingDown_cong: "w_done w' = w_done w \<Longrightarrow> shuttingDown w' = shuttingDown w"
  by (simp add: shuttingDown_def)

lemma release_request_adds:
  "request_pool_ok ps \<Longrightarrow> pools_add 0 0 (- 1) ps (ReleaseRequest r ps)"
  by (simp add: pools_add_def ReleaseRequest_ok req_out_simps)

lemma notify_release_adds:
  assumes "request_pool_ok ps" and "frame_ok f" and "frame_ok ack" and "f_Messages ack = []"
  shows "pools_add (- 2) (- int (length (f_Messages f))) (- 1) ps
    (ReleaseFrame f (ReleaseRequest r (ReleaseFrame ack ps)))"
proof -
  note a = release_adds [OF assms(1,3)]
  then have "request_pool_ok (ReleaseFrame ack ps)" by (simp add: pools_add_def)
  note b = release_request_adds [OF this, of r]
  then have "request_pool_ok (ReleaseRequest r (ReleaseFrame ack ps))" by (simp add: pools_add_def)
  note c = release_adds [OF this assms(2)]
  from a b c assms(4) show ?thesis by (simp add: pools_add_def)
qed

lemma sum_update:
  "i < length hs \<Longrightarrow> (\<Sum>h\<leftarrow>hs[i := x]. g h) = (\<Sum>h\<leftarrow>hs. g h) + g x - (g (hs ! i) :: int)"
proof (induction hs arbitrary: i)
  case (Cons h hs)
  then show ?case by (cases i) auto
qed simp

section \<open>The representation invariant\<close>

lemma sys_ok_start: "worker_start s \<Longrightarrow> sys_ok s"
  by (auto simp: worker_start_def sys_ok_def Handle_def)

lemma sys_ok_read:
  assumes "sys_ok s" and "read_step tx src pick s = Some s'"
  shows "sys_ok s'"
proof -
  have ok: "request_pool_ok (w_pools (s_w s))" "conn_ok (w_conn (s_w s))" "\<forall>h \<in> set (s_hs s). handler_ok h"
    "\<forall>f \<in> set (rframes (s_read s)). frame_ok f"
    using assms(1) by (simp_all add: sys_ok_def)
  show ?thesis
    using assms
  proof (cases rule: read_step_cases)
    case (acquire f ps)
    with ok show ?thesis by (simp add: sys_ok_def pools_add_def frame_clean_fields)
  next
    case (arm f c pc)
    with ok show ?thesis by (auto simp: sys_ok_def conn_quiet_def arming_def)
  next
    case (arm_fail f c e)
    with ok ReleaseFrame_request_ok show ?thesis by (auto simp: sys_ok_def conn_quiet_def arming_def)
  next
    case (read f f' ps)
    with ok show ?thesis by (simp add: sys_ok_def pools_add_def)
  next
    case (read_fail f f' ps w' pc)
    let ?u = "drop_frame f' ((s_w s)\<lparr>w_pools := ps\<rparr>)"
    have "request_pool_ok (w_pools ?u)" "conn_ok (w_conn ?u)"
      using read_fail ok ReleaseFrame_request_ok [of ps f'] by (simp_all add: pools_add_def)
    from reports_ok [OF read_fail(5) this] read_fail ok show ?thesis by (auto simp: sys_ok_def)
  next
    case (hello f m e r c ps pc)
    with ok ReleaseFrame_request_ok [of ps f] show ?thesis
      by (auto simp: sys_ok_def conn_grows_def pools_keep_def)
  next
    case (refuse f x code msg)
    from reports_ok [OF reports_disconnect ok(1,2), of "s_now s" code msg] refuse ok
    show ?thesis by (simp add: sys_ok_def ReleaseFrame_request_ok)
  next
    case (bye f x c ps)
    with ok ReleaseFrame_request_ok [of ps f] show ?thesis
      by (simp add: sys_ok_def conn_grows_def pools_keep_def)
  next
    case (notify f)
    with ok show ?thesis by (simp add: sys_ok_def)
  next
    case (wait f)
    with ok show ?thesis by (simp add: sys_ok_def)
  next
    case (slot_drain f)
    with ok show ?thesis by (auto simp: sys_ok_def)
  next
    case (slot f w')
    with ok show ?thesis by (auto simp: sys_ok_def)
  next
    case (spawned f)
    with ok show ?thesis by (auto simp: sys_ok_def spawn_def handler_ok_def)
  next
    case (drain fo)
    from reports_ok [OF reports_disconnect ok(1,2), of "s_now s" statusCodeNormal "gostr ''agent is shutting down''"]
      drain ok
    show ?thesis by (cases fo) (auto simp: sys_ok_def drained_def drain_def ReleaseFrame_request_ok)
  next
    case (closing r)
    with ok close_conn show ?thesis by (simp add: sys_ok_def)
  next
    case (cancel r)
    with ok show ?thesis by (simp add: sys_ok_def)
  qed
qed

lemma sys_ok_handler:
  assumes "sys_ok s" and "handler_step tx i req s = Some s'"
  shows "sys_ok s'"
proof -
  have ok: "request_pool_ok (w_pools (s_w s))" "conn_ok (w_conn (s_w s))" "\<forall>h \<in> set (s_hs s). handler_ok h"
    "\<forall>f \<in> set (rframes (s_read s)). frame_ok f"
    using assms(1) by (simp_all add: sys_ok_def)
  obtain h w where i: "i < length (s_hs s)" and n: "handler_next tx (s_now s) req (s_hs s ! i) (s_w s) = Some (h, w)"
    and s': "s' = s\<lparr>s_w := w, s_hs := (s_hs s)[i := h]\<rparr>"
    by (rule handler_step_cases [OF assms(2)])
  have hi: "handler_ok (s_hs s ! i)" using ok(3) i by simp
  have "request_pool_ok (w_pools w) \<and> conn_ok (w_conn w) \<and> handler_ok h"
  proof (cases rule: handler_next_cases [OF ok(1,2) n])
    case (1 f r ps)
    with hi ok show ?thesis by (simp add: handler_ok_def pools_add_def)
  next
    case (2 f r ack c ps)
    with hi ok show ?thesis by (auto simp: handler_ok_def pools_add_def conn_grows_def)
  next
    case (3 e f ack r)
    from reports_ok [OF 3(3) ok(1,2)] 3 hi show ?thesis by (simp add: handler_ok_def)
  next
    case (4 f ack r)
    with hi ok close_conn show ?thesis by (simp add: handler_ok_def)
  next
    case (5 f ack r)
    with hi ok notify_release_adds [of "w_pools (s_w s)" f ack r] show ?thesis
      by (simp add: handler_ok_def pools_add_def)
  qed (use ok in \<open>simp_all add: handler_ok_def\<close>)
  with s' ok show ?thesis
    using set_update_subset_insert [of "s_hs s" i h] by (auto simp: sys_ok_def)
qed

lemma sys_ok_fire:
  assumes "sys_ok s" and "fire tx ev s = Some s'"
  shows "sys_ok s'"
proof (cases ev)
  case (EvRead src pick)
  with assms sys_ok_read show ?thesis by (simp add: fire_def)
next
  case (EvHandler i req)
  with assms sys_ok_handler show ?thesis by (simp add: fire_def)
next
  case EvPoke
  obtain err c where "SetReadDeadline (Some (s_now s)) (w_conn (s_w s)) = (err, c)" by fastforce
  with EvPoke assms SetReadDeadline_quiet [OF _ this] show ?thesis
    by (auto simp: fire_def poke_def sys_ok_def conn_quiet_def split: if_splits)
next
  case EvForceClose
  with assms close_conn show ?thesis by (auto simp: fire_def sys_ok_def split: if_splits)
qed (use assms in \<open>auto simp: fire_def sys_ok_def pools_keep_def split: if_splits\<close>)

section \<open>Accounting\<close>

definition hlive :: "hpc \<Rightarrow> int" where
  "hlive h = (if h = HDone then 0 else 1)"

text \<open>Who holds a slot: a handler until it has released it, and the read loop between taking one and
  starting the handler.\<close>

definition hholds :: "hpc \<Rightarrow> bool" where
  "hholds h \<longleftrightarrow> h \<noteq> HLeave \<and> h \<noteq> HDone"

fun rholds :: "rpc \<Rightarrow> nat" where
  "rholds (RSpawn f) = 1"
| "rholds _ = 0"

fun hreqs :: "hpc \<Rightarrow> int" where
  "hreqs (HStart f) = 0"
| "hreqs HRelease = 0"
| "hreqs HLeave = 0"
| "hreqs HDone = 0"
| "hreqs _ = 1"

definition msgs_in :: "Frame list \<Rightarrow> int" where
  "msgs_in fs = (\<Sum>f\<leftarrow>fs. int (length (f_Messages f)))"

text \<open>The WaitGroup counts the live handlers, the slots taken are those held and within the capacity,
  and every pooled object in use is held by the read loop or by a handler.\<close>

definition slots_account :: "system \<Rightarrow> system \<Rightarrow> bool" where
  "slots_account s0 s \<longleftrightarrow>
     w_inflight (s_w s) = (\<Sum>h\<leftarrow>s_hs s. hlive h) \<and>
     (case w_slots (s_w s) of
        None \<Rightarrow> w_slots (s_w s0) = None
      | Some (cap, held) \<Rightarrow> held = length (filter hholds (s_hs s)) + rholds (s_read s) \<and> held \<le> cap \<and> map_option fst (w_slots (s_w s0)) = Some cap)"

definition pools_account :: "system \<Rightarrow> system \<Rightarrow> bool" where
  "pools_account s0 s \<longleftrightarrow>
     pools_add (int (length (rframes (s_read s))) + (\<Sum>h\<leftarrow>s_hs s. int (length (hframes h))))
       (msgs_in (rframes (s_read s)) + (\<Sum>h\<leftarrow>s_hs s. msgs_in (hframes h)))
       (\<Sum>h\<leftarrow>s_hs s. hreqs h) (w_pools (s_w s0)) (w_pools (s_w s))"

lemma slots_account_start: "worker_start s \<Longrightarrow> slots_account s s"
  by (auto simp: worker_start_def slots_account_def Handle_def)

lemma pools_account_start: "worker_start s \<Longrightarrow> pools_account s s"
  by (auto simp: worker_start_def pools_account_def Handle_def pools_add_def msgs_in_def)

lemma reports_slots:
  assumes "reports w w'"
  shows "w_slots w' = w_slots w \<and> w_inflight w' = w_inflight w"
proof -
  have "w_slots (snd (sendAgentDisconnect now code msg w)) = w_slots w \<and>
      w_inflight (snd (sendAgentDisconnect now code msg w)) = w_inflight w" for now code msg
    by (simp add: sendAgentDisconnect_def Let_def case_prod_beta split: option.split)
  with assms show ?thesis by (auto simp: reports_def disconnect_def)
qed

lemma hlive_nonneg: "0 \<le> hlive h" "h \<noteq> HDone \<Longrightarrow> hlive h = 1"
  by (simp_all add: hlive_def)

lemma live_sum_nonneg: "0 \<le> (\<Sum>h\<leftarrow>hs. hlive h)"
  by (rule sum_list_nonneg) (auto simp: hlive_def)

lemma live_sum: "i < length hs \<Longrightarrow> hs ! i \<noteq> HDone \<Longrightarrow> 1 \<le> (\<Sum>h\<leftarrow>hs. hlive h)"
proof (induction hs arbitrary: i)
  case (Cons h hs)
  then show ?case
    using live_sum_nonneg [of hs] hlive_nonneg [of h] by (cases i) fastforce+
qed simp

lemma slots_account_read:
  assumes "sys_ok s" and "slots_account s0 s" and "read_step tx src pick s = Some s'"
  shows "slots_account s0 s'"
  using assms(1,3)
proof (cases rule: read_step_cases)
  case (read_fail f f' ps w' pc)
  with assms(2) reports_slots [OF read_fail(5)] show ?thesis by (auto simp: slots_account_def split: option.splits)
next
  case (refuse f x code msg)
  with assms(2) reports_slots [OF reports_disconnect, of "s_now s" code msg "s_w s"] show ?thesis
    by (auto simp: slots_account_def split: option.splits)
next
  case (drain fo)
  with assms(2) reports_slots [OF reports_disconnect, of "s_now s" _ _ "s_w s"] show ?thesis
    by (cases fo) (auto simp: slots_account_def drained_def drain_def split: option.splits)
next
  case (spawned f)
  with assms(2) show ?thesis
    by (auto simp: slots_account_def spawn_def hlive_def hholds_def split: option.splits)
next
  case (arm f c pc)
  with assms(2) show ?thesis by (auto simp: slots_account_def arming_def split: option.splits)
next
  case (arm_fail f c e)
  with assms(2) show ?thesis by (auto simp: slots_account_def arming_def split: option.splits)
qed (use assms(2) in \<open>auto simp: slots_account_def split: option.splits\<close>)

lemma handler_next_live:
  assumes "sys_ok s" and "handler_next tx now req h (s_w s) = Some (h', w')"
  shows "h \<noteq> HDone \<and> w_inflight w' = w_inflight (s_w s) - (if h' = HDone then 1 else 0) \<and>
    (hholds h' \<longrightarrow> hholds h) \<and>
    w_slots w' = (if hholds h \<and> \<not> hholds h' then map_option (\<lambda>(cap, held). (cap, held - 1)) (w_slots (s_w s)) else w_slots (s_w s))"
proof -
  have ok: "request_pool_ok (w_pools (s_w s))" "conn_ok (w_conn (s_w s))"
    using assms(1) by (simp_all add: sys_ok_def)
  show ?thesis
  proof (cases rule: handler_next_cases [OF ok assms(2)])
    case (3 e f ack r)
    with reports_slots [OF 3(3)] show ?thesis by (simp add: hholds_def)
  qed (auto simp: hholds_def)
qed

lemma filter_length_update:
  "i < length hs \<Longrightarrow> length (filter P (hs[i := x])) + (if P (hs ! i) then 1 else 0) =
     length (filter P hs) + (if P x then 1 else 0)"
proof (induction hs arbitrary: i)
  case (Cons h hs)
  then show ?case by (cases i) auto
qed simp

lemma slots_account_handler:
  assumes "sys_ok s" and "slots_account s0 s" and "handler_step tx i req s = Some s'"
  shows "slots_account s0 s'"
proof -
  obtain h w where i: "i < length (s_hs s)" and n: "handler_next tx (s_now s) req (s_hs s ! i) (s_w s) = Some (h, w)"
    and s': "s' = s\<lparr>s_w := w, s_hs := (s_hs s)[i := h]\<rparr>"
    by (rule handler_step_cases [OF assms(3)])
  note live = handler_next_live [OF assms(1) n]
  have "(\<Sum>h\<leftarrow>(s_hs s)[i := h]. hlive h) = (\<Sum>h\<leftarrow>s_hs s. hlive h) - (if h = HDone then 1 else 0)"
    using live by (simp add: sum_update [OF i] hlive_def)
  moreover have "length (filter hholds ((s_hs s)[i := h])) =
      length (filter hholds (s_hs s)) - (if hholds (s_hs s ! i) \<and> \<not> hholds h then 1 else 0)"
    using live filter_length_update [OF i, of hholds h] by (auto split: if_splits)
  moreover have "hholds (s_hs s ! i) \<Longrightarrow> \<exists>k. length (filter hholds (s_hs s)) = Suc k"
    using i by (cases "filter hholds (s_hs s)") (auto simp: filter_empty_conv)
  ultimately show ?thesis
    using assms(2) live s' by (auto simp: slots_account_def split: option.splits if_splits)
qed

lemma slots_account_fire:
  assumes "sys_ok s" and "slots_account s0 s" and "fire tx ev s = Some s'"
  shows "slots_account s0 s'"
proof (cases ev)
  case (EvRead src pick)
  with assms slots_account_read show ?thesis by (simp add: fire_def)
next
  case (EvHandler i req)
  with assms slots_account_handler show ?thesis by (simp add: fire_def)
qed (use assms(2,3) in \<open>auto simp: fire_def slots_account_def poke_def case_prod_beta split: if_splits option.splits\<close>)

lemma msgs_in_simps [simp]: "msgs_in [] = 0" "msgs_in (f # fs) = int (length (f_Messages f)) + msgs_in fs"
  by (simp_all add: msgs_in_def)

lemma pools_account_change:
  assumes "pools_account s0 s" and "pools_add a b c (w_pools (s_w s)) (w_pools (s_w s'))"
    and "int (length (rframes (s_read s'))) + (\<Sum>h\<leftarrow>s_hs s'. int (length (hframes h))) =
         int (length (rframes (s_read s))) + (\<Sum>h\<leftarrow>s_hs s. int (length (hframes h))) + a"
    and "msgs_in (rframes (s_read s')) + (\<Sum>h\<leftarrow>s_hs s'. msgs_in (hframes h)) =
         msgs_in (rframes (s_read s)) + (\<Sum>h\<leftarrow>s_hs s. msgs_in (hframes h)) + b"
    and "(\<Sum>h\<leftarrow>s_hs s'. hreqs h) = (\<Sum>h\<leftarrow>s_hs s. hreqs h) + c"
  shows "pools_account s0 s'"
  using pools_add_trans [OF assms(1) [unfolded pools_account_def] assms(2)] assms(3-5)
  by (simp add: pools_account_def)

lemma reports_keep:
  assumes "reports w w'" and "request_pool_ok (w_pools w)" and "conn_ok (w_conn w)"
  shows "pools_add 0 0 0 (w_pools w) (w_pools w')"
  by (rule reports_shape [OF assms]) (simp add: pools_keep_add)

lemma drop_adds:
  assumes "pools_add a b c ps qs" and "frame_ok f"
  shows "pools_add (a - 1) (b - int (length (f_Messages f))) c ps (ReleaseFrame f qs)"
  using assms(1) release_adds [of qs f] assms(2) by (simp add: pools_add_def)

lemma pools_account_read:
  assumes "sys_ok s" and "pools_account s0 s" and "read_step tx src pick s = Some s'"
  shows "pools_account s0 s'"
proof -
  have ok: "request_pool_ok (w_pools (s_w s))" "conn_ok (w_conn (s_w s))" "\<forall>f \<in> set (rframes (s_read s)). frame_ok f"
    using assms(1) by (simp_all add: sys_ok_def)
  have refl: "pools_add 0 0 0 (w_pools (s_w s)) (w_pools (s_w s))" using ok by (simp add: pools_add_def)
  note change = pools_account_change [OF assms(2)]
  show ?thesis
    using assms(1,3)
  proof (cases rule: read_step_cases)
    case (acquire f ps)
    then show ?thesis by (intro change [of 1 0 0]) (simp_all add: frame_clean_fields)
  next
    case (arm f c pc)
    with refl show ?thesis by (intro change [of 0 0 0]) (auto simp: arming_def)
  next
    case (arm_fail f c e)
    then have "frame_ok f" using ok by (auto simp: arming_def)
    with arm_fail drop_adds [OF refl this] refl show ?thesis
      by (intro change [of "- 1" "- int (length (f_Messages f))" 0]) (auto simp: arming_def)
  next
    case (read f f' ps)
    then show ?thesis
      by (intro change [of 0 "int (length (f_Messages f')) - int (length (f_Messages f))" 0]) simp_all
  next
    case (read_fail f f' ps w' pc)
    let ?u = "drop_frame f' ((s_w s)\<lparr>w_pools := ps\<rparr>)"
    have u: "pools_add (0 - 1) (int (length (f_Messages f')) - int (length (f_Messages f)) - int (length (f_Messages f'))) 0
        (w_pools (s_w s)) (w_pools ?u)"
      unfolding drop_frame_fields by (rule drop_adds) (use read_fail in simp_all)
    then have "request_pool_ok (w_pools ?u)" "conn_ok (w_conn ?u)" using ok by (simp_all add: pools_add_def)
    from pools_add_trans [OF u reports_keep [OF read_fail(5) this]] read_fail show ?thesis
      by (intro change [of "- 1" "- int (length (f_Messages f))" 0]) auto
  next
    case (hello f m e r c ps pc)
    then have "frame_ok f" using ok by simp
    from drop_adds [OF _ this, of 0 0 0 "w_pools (s_w s)"] hello show ?thesis
      by (intro change [of "- 1" "- int (length (f_Messages f))" 0]) (auto simp: pools_keep_add)
  next
    case (refuse f x code msg)
    then have "frame_ok f" using ok by simp
    from drop_adds [OF reports_keep [OF reports_disconnect ok(1,2)] this] refuse show ?thesis
      by (intro change [of "- 1" "- int (length (f_Messages f))" 0]) auto
  next
    case (bye f x c ps)
    then have "frame_ok f" using ok by simp
    from drop_adds [OF _ this, of 0 0 0 "w_pools (s_w s)"] bye show ?thesis
      by (intro change [of "- 1" "- int (length (f_Messages f))" 0]) (auto simp: pools_keep_add)
  next
    case (slot f w')
    with refl show ?thesis by (intro change [of 0 0 0]) auto
  next
    case (spawned f)
    with refl show ?thesis by (intro change [of 0 0 0]) (auto simp: spawn_def)
  next
    case (drain fo)
    have d: "pools_add 0 0 0 (w_pools (s_w s)) (w_pools (Worker.drain (s_now s) (s_w s)))"
      unfolding drain_def by (rule reports_keep [OF reports_disconnect ok(1,2)])
    show ?thesis
    proof (cases fo)
      case None
      with d drain show ?thesis by (intro change [of 0 0 0]) (auto simp: drained_def)
    next
      case (Some f)
      then have "frame_ok f" using ok drain by simp
      from drop_adds [OF d this] Some drain show ?thesis
        by (intro change [of "- 1" "- int (length (f_Messages f))" 0]) (auto simp: drained_def)
    qed
  qed (use refl in \<open>auto intro!: change [of 0 0 0]\<close>)
qed

lemma pools_account_handler:
  assumes "sys_ok s" and "pools_account s0 s" and "handler_step tx i req s = Some s'"
  shows "pools_account s0 s'"
proof -
  have ok: "request_pool_ok (w_pools (s_w s))" "conn_ok (w_conn (s_w s))" "\<forall>h \<in> set (s_hs s). handler_ok h"
    using assms(1) by (simp_all add: sys_ok_def)
  have refl: "pools_add 0 0 0 (w_pools (s_w s)) (w_pools (s_w s))" using ok by (simp add: pools_add_def)
  obtain h w where i: "i < length (s_hs s)" and n: "handler_next tx (s_now s) req (s_hs s ! i) (s_w s) = Some (h, w)"
    and s': "s' = s\<lparr>s_w := w, s_hs := (s_hs s)[i := h]\<rparr>"
    by (rule handler_step_cases [OF assms(3)])
  have hi: "handler_ok (s_hs s ! i)" using ok(3) i by simp
  note change = pools_account_change [OF assms(2), where s' = s', unfolded s', simplified, unfolded sum_update [OF i]]
  show ?thesis
    unfolding s'
  proof (cases rule: handler_next_cases [OF ok(1,2) n])
    case (1 f r ps)
    then show "pools_account s0 (s\<lparr>s_w := w, s_hs := (s_hs s)[i := h]\<rparr>)" by (intro change [of 0 0 1]) simp_all
  next
    case (2 f r ack c ps)
    then show "pools_account s0 (s\<lparr>s_w := w, s_hs := (s_hs s)[i := h]\<rparr>)" by (intro change [of 1 0 0]) auto
  next
    case (3 e f ack r)
    with reports_keep [OF 3(3) ok(1,2)] show "pools_account s0 (s\<lparr>s_w := w, s_hs := (s_hs s)[i := h]\<rparr>)"
      by (intro change [of 0 0 0]) simp_all
  next
    case (4 f ack r)
    with refl show "pools_account s0 (s\<lparr>s_w := w, s_hs := (s_hs s)[i := h]\<rparr>)" by (intro change [of 0 0 0]) simp_all
  next
    case (5 f ack r)
    with hi notify_release_adds [OF ok(1), of f ack r] show "pools_account s0 (s\<lparr>s_w := w, s_hs := (s_hs s)[i := h]\<rparr>)"
      by (intro change [of "- 2" "- int (length (f_Messages f))" "- 1"]) (simp_all add: handler_ok_def)
  next
    case 6
    with refl show "pools_account s0 (s\<lparr>s_w := w, s_hs := (s_hs s)[i := h]\<rparr>)" by (intro change [of 0 0 0]) simp_all
  next
    case 7
    with refl show "pools_account s0 (s\<lparr>s_w := w, s_hs := (s_hs s)[i := h]\<rparr>)" by (intro change [of 0 0 0]) simp_all
  qed
qed

lemma pools_account_fire:
  assumes "sys_ok s" and "pools_account s0 s" and "fire tx ev s = Some s'"
  shows "pools_account s0 s'"
proof (cases ev)
  case (EvRead src pick)
  with assms pools_account_read show ?thesis by (simp add: fire_def)
next
  case (EvHandler i req)
  with assms pools_account_handler show ?thesis by (simp add: fire_def)
qed (use assms(2,3) in
  \<open>auto simp: fire_def pools_account_def pools_keep_add pools_add_def poke_def case_prod_beta split: if_splits\<close>)

section \<open>The shape of what is written\<close>

definition exiting :: "rpc \<Rightarrow> bool" where
  "exiting pc \<longleftrightarrow> (\<exists>r. pc = RClose r \<or> pc = RCancel r \<or> pc = RStopped r)"

definition types_of :: "Conn \<Rightarrow> byte list" where
  "types_of c = map wire_type (map fst (log_of c))"

lemma types_of_log: "log_of c' = log_of c \<Longrightarrow> types_of c' = types_of c" "log_of c = [] \<Longrightarrow> types_of c = []"
  by (simp_all add: types_of_def)

text \<open>One AGENT-HELLO at most and first, then ACKs, then AGENT-DISCONNECTs; none of the last before
  the latch is set; at most one of them through \<open>disconnect\<close> and one more as the read loop ends.\<close>

definition shape :: "byte list \<Rightarrow> bool \<Rightarrow> bool \<Rightarrow> bool \<Rightarrow> bool" where
  "shape ts said once ending \<longleftrightarrow>
     (\<exists>hs as ds. ts = hs @ as @ ds \<and> (hs = [] \<or> hs = [TypeAgentHello]) \<and> set as \<subseteq> {TypeAgentAck} \<and>
        set ds \<subseteq> {TypeAgentDisconnect} \<and> (\<not> said \<longrightarrow> ds = []) \<and>
        length ds \<le> (if once then 1 else 0) + (if ending then 1 else 0))"

definition log_shape :: "system \<Rightarrow> bool" where
  "log_shape s \<longleftrightarrow>
     shape (types_of (w_conn (s_w s))) (w_goodbyeSent (s_w s)) (w_disconnectOnce (s_w s)) (exiting (s_read s)) \<and>
     (w_disconnectOnce (s_w s) \<longrightarrow> w_goodbyeSent (s_w s)) \<and>
     (\<not> w_ready (s_w s) \<longrightarrow> s_hs s = [] \<and> (\<not> exiting (s_read s) \<longrightarrow> log_of (w_conn (s_w s)) = []))"

lemma shapeI:
  assumes "ts = hs @ as @ ds" and "hs = [] \<or> hs = [TypeAgentHello]" and "set as \<subseteq> {TypeAgentAck}"
    and "set ds \<subseteq> {TypeAgentDisconnect}" and "\<not> g \<longrightarrow> ds = []"
    and "length ds \<le> (if d then 1 else 0) + (if x then 1 else 0)"
  shows "shape ts g d x"
  unfolding shape_def using assms by blast

lemma shapeE:
  assumes "shape ts g d x"
  obtains hs as ds where "ts = hs @ as @ ds" "hs = [] \<or> hs = [TypeAgentHello]" "set as \<subseteq> {TypeAgentAck}"
    "set ds \<subseteq> {TypeAgentDisconnect}" "\<not> g \<longrightarrow> ds = []" "length ds \<le> (if d then 1 else 0) + (if x then 1 else 0)"
  using assms unfolding shape_def by blast

lemma shape_mono:
  assumes "shape ts g d x" and "g \<longrightarrow> g'" and "d \<longrightarrow> d'" and "x \<longrightarrow> x'"
  shows "shape ts g' d' x'"
proof (rule shapeE [OF assms(1)])
  fix hs as ds
  assume *: "ts = hs @ as @ ds" "hs = [] \<or> hs = [TypeAgentHello]" "set as \<subseteq> {TypeAgentAck}"
    "set ds \<subseteq> {TypeAgentDisconnect}" "\<not> g \<longrightarrow> ds = []" "length ds \<le> (if d then 1 else 0) + (if x then 1 else 0)"
  have "length ds \<le> (if d' then 1 else 0) + (if x' then 1 else 0)"
    using *(6) assms(3,4) by (simp split: if_splits)
  moreover have "\<not> g' \<longrightarrow> ds = []" using *(5) assms(2) by blast
  ultimately show ?thesis using * by (intro shapeI [of ts hs as ds])
qed

lemma shape_ack:
  assumes "shape ts False d x"
  shows "shape (ts @ [TypeAgentAck]) False d x"
proof (rule shapeE [OF assms])
  fix hs as ds
  assume *: "ts = hs @ as @ ds" "hs = [] \<or> hs = [TypeAgentHello]" "set as \<subseteq> {TypeAgentAck}" "\<not> False \<longrightarrow> ds = []"
  then show ?thesis by (intro shapeI [of _ hs "as @ [TypeAgentAck]" "[]"]) simp_all
qed

lemma shape_disconnect:
  assumes "shape ts g d x" and "\<not> d \<and> d' \<and> x' = x \<or> \<not> x \<and> x' \<and> d' = d"
  shows "shape (ts @ [TypeAgentDisconnect]) True d' x'"
proof (rule shapeE [OF assms(1)])
  fix hs as ds
  assume *: "ts = hs @ as @ ds" "hs = [] \<or> hs = [TypeAgentHello]" "set as \<subseteq> {TypeAgentAck}"
    "set ds \<subseteq> {TypeAgentDisconnect}" "length ds \<le> (if d then 1 else 0) + (if x then 1 else 0)"
  have "length (ds @ [TypeAgentDisconnect]) \<le> (if d' then 1 else 0) + (if x' then 1 else 0)"
    using *(5) assms(2) by (auto split: if_splits)
  with * show ?thesis by (intro shapeI [of _ hs as "ds @ [TypeAgentDisconnect]"]) simp_all
qed

lemma shape_hello: "shape [] g d x" "shape [TypeAgentHello] g d x"
proof -
  show "shape [] g d x" by (simp add: shape_def)
  show "shape [TypeAgentHello] g d x" by (rule shapeI [of _ "[TypeAgentHello]" "[]" "[]"]) simp_all
qed

lemma log_shape_start: "worker_start s \<Longrightarrow> log_shape s"
  by (auto simp: worker_start_def log_shape_def Handle_def types_of_log(2) shape_hello)

lemma grows_types:
  assumes "conn_grows P c c'"
  shows "types_of c' = types_of c \<or> (\<exists>b. types_of c' = types_of c @ [wire_type b] \<and> P b)"
  using assms by (auto simp: conn_grows_def types_of_def)


text \<open>A report through \<open>disconnect\<close> keeps the shape.\<close>

lemma disconnect_shape_kept:
  assumes "request_pool_ok (w_pools w)" and "conn_ok (w_conn w)"
    and "shape (types_of (w_conn w)) (w_goodbyeSent w) (w_disconnectOnce w) x"
    and "w_disconnectOnce w \<longrightarrow> w_goodbyeSent w" and "w' = disconnect now code msg w"
  shows "shape (types_of (w_conn w')) (w_goodbyeSent w') (w_disconnectOnce w') x \<and>
    (w_disconnectOnce w' \<longrightarrow> w_goodbyeSent w') \<and> w_ready w' = w_ready w"
proof -
  obtain c ps where w': "w' = w\<lparr>w_goodbyeSent := w_goodbyeSent w \<or> \<not> w_disconnectOnce w, w_conn := c,
         w_pools := ps, w_disconnectOnce := True\<rparr>"
      and g: "conn_grows (\<lambda>b. \<not> w_disconnectOnce w \<and> wire_type b = TypeAgentDisconnect) (w_conn w) c"
    unfolding assms(5) by (rule disconnect_shape [OF assms(1,2)])
  from grows_types [OF g] show ?thesis
  proof (elim disjE exE conjE)
    assume "types_of c = types_of (w_conn w)"
    then show ?thesis using w' assms(3,4) by (auto elim: shape_mono)
  next
    fix b
    assume "types_of c = types_of (w_conn w) @ [wire_type b]" "\<not> w_disconnectOnce w" "wire_type b = TypeAgentDisconnect"
    then show ?thesis using w' shape_disconnect [OF assms(3), of True x] by simp
  qed
qed

lemma reports_shape_kept:
  assumes "reports w w'" and "request_pool_ok (w_pools w)" and "conn_ok (w_conn w)"
    and "shape (types_of (w_conn w)) (w_goodbyeSent w) (w_disconnectOnce w) x"
    and "w_disconnectOnce w \<longrightarrow> w_goodbyeSent w"
  shows "shape (types_of (w_conn w')) (w_goodbyeSent w') (w_disconnectOnce w') x \<and>
    (w_disconnectOnce w' \<longrightarrow> w_goodbyeSent w') \<and> w_ready w' = w_ready w"
proof -
  from assms(1) consider "w' = w" | now code msg where "w' = disconnect now code msg w"
    by (auto simp: reports_def)
  then show ?thesis
    by cases (use assms(4,5) in simp, rule disconnect_shape_kept [OF assms(2-5)])
qed

lemma log_shape_parts:
  assumes "log_shape s"
  shows "shape (types_of (w_conn (s_w s))) (w_goodbyeSent (s_w s)) (w_disconnectOnce (s_w s))
      (exiting (s_read s))"
    and "w_disconnectOnce (s_w s) \<longrightarrow> w_goodbyeSent (s_w s)"
    and "\<not> w_ready (s_w s) \<Longrightarrow> s_hs s = []"
    and "\<not> w_ready (s_w s) \<Longrightarrow> \<not> exiting (s_read s) \<Longrightarrow> log_of (w_conn (s_w s)) = []"
  using assms by (simp_all add: log_shape_def)

lemma log_shapeI:
  assumes "shape (types_of (w_conn (s_w s))) (w_goodbyeSent (s_w s)) (w_disconnectOnce (s_w s))
      (exiting (s_read s))"
    and "w_disconnectOnce (s_w s) \<longrightarrow> w_goodbyeSent (s_w s)"
    and "\<not> w_ready (s_w s) \<Longrightarrow> s_hs s = []"
    and "\<not> w_ready (s_w s) \<Longrightarrow> \<not> exiting (s_read s) \<Longrightarrow> log_of (w_conn (s_w s)) = []"
  shows "log_shape s"
  using assms by (auto simp: log_shape_def)

text \<open>Steps that leave the log and the latches alone.\<close>

lemma log_shape_quiet:
  assumes "log_shape s" and "log_of (w_conn (s_w s')) = log_of (w_conn (s_w s))"
    and "w_goodbyeSent (s_w s') = w_goodbyeSent (s_w s)" and "w_disconnectOnce (s_w s') = w_disconnectOnce (s_w s)"
    and "exiting (s_read s) \<longrightarrow> exiting (s_read s')" and "w_ready (s_w s') = w_ready (s_w s)"
    and "s_hs s' = s_hs s \<or> w_ready (s_w s) \<or> (\<exists>i h. s_hs s' = (s_hs s)[i := h])"
  shows "log_shape s'"
  using log_shape_parts [OF assms(1)] assms(2-7) types_of_log(1) [OF assms(2)]
  by (intro log_shapeI) (auto elim: shape_mono)

lemma exiting_simps [simp]:
  "exiting (RClose r)" "exiting (RCancel r)" "exiting (RStopped r)" "\<not> exiting RTop" "\<not> exiting (RArm f)"
  "\<not> exiting (RArmSet f)" "\<not> exiting (RArmRecheck f)" "\<not> exiting (RRead f)" "\<not> exiting (RDispatch f)"
  "\<not> exiting (RAcquire f)" "\<not> exiting (RSlot f)" "\<not> exiting (RSpawn f)" "\<not> exiting (RDrain fo)"
  by (simp_all add: exiting_def)

lemma log_shape_read:
  assumes "sys_ok s" and "log_shape s" and "read_step tx src pick s = Some s'"
    and ready: "\<And>f. s_read s \<in> {RAcquire f, RSlot f, RSpawn f} \<Longrightarrow> w_ready (s_w s)"
  shows "log_shape s'"
proof -
  have ok: "request_pool_ok (w_pools (s_w s))" "conn_ok (w_conn (s_w s))" using assms(1) by (simp_all add: sys_ok_def)
  note parts = log_shape_parts [OF assms(2)] and quiet = log_shape_quiet [OF assms(2)]
  show ?thesis
    using assms(1,3)
  proof (cases rule: read_step_cases)
    case (acquire f ps)
    then show ?thesis by (intro quiet) simp_all
  next
    case (arm f c pc)
    then show ?thesis by (intro quiet) (auto simp: arming_def conn_quiet_def)
  next
    case (arm_fail f c e)
    then show ?thesis by (intro quiet) (auto simp: arming_def conn_quiet_def)
  next
    case (read f f' ps)
    then show ?thesis by (intro quiet) simp_all
  next
    case (read_fail f f' ps w' pc)
    let ?u = "drop_frame f' ((s_w s)\<lparr>w_pools := ps\<rparr>)"
    have "request_pool_ok (w_pools ?u)" "conn_ok (w_conn ?u)"
      using read_fail ok ReleaseFrame_request_ok [of ps f'] by (simp_all add: pools_add_def)
    from reports_shape_kept [OF read_fail(5) this, of False] parts read_fail(1)
    have sh: "shape (types_of (w_conn w')) (w_goodbyeSent w') (w_disconnectOnce w') False"
      "w_disconnectOnce w' \<longrightarrow> w_goodbyeSent w'" "w_ready w' = w_ready (s_w s)" by simp_all
    from read_fail(6) show ?thesis
    proof (elim disjE exE conjE)
      assume "pc = RDrain None" "w' = ?u"
      with read_fail(1,2) show ?thesis by (intro quiet) simp_all
    next
      fix r
      assume "pc = RClose r"
      with sh read_fail(2) parts(3) shape_mono [OF sh(1), of _ _ True] show ?thesis by (intro log_shapeI) simp_all
    qed
  next
    case (hello f m e r c ps pc)
    then have "log_of (w_conn (s_w s)) = []" "s_hs s = []" using parts by simp_all
    moreover have "shape (types_of c) g d x" for g d x
      using grows_types [OF hello(4)] types_of_log(2) [OF calculation(1)] shape_hello by auto
    ultimately show ?thesis
      using hello(3,6) parts(2) by (intro log_shapeI) auto
  next
    case (refuse f x code msg)
    from disconnect_shape_kept [OF ok parts(1,2) refl, of "s_now s" code msg] parts(3) refuse
    show ?thesis by (intro log_shapeI) (auto elim: shape_mono)
  next
    case (bye f x c ps)
    from grows_types [OF bye(4)]
    have "shape (types_of c) True (w_disconnectOnce (s_w s)) True"
    proof (elim disjE exE conjE)
      assume "types_of c = types_of (w_conn (s_w s))"
      then show ?thesis using parts(1) by (auto elim: shape_mono)
    next
      fix b
      assume "types_of c = types_of (w_conn (s_w s)) @ [wire_type b]" "wire_type b = TypeAgentDisconnect"
      then show ?thesis using shape_disconnect [OF parts(1), of "w_disconnectOnce (s_w s)" True] bye(1) by simp
    qed
    with bye show ?thesis by (intro log_shapeI) simp_all
  next
    case (notify f)
    then show ?thesis by (intro quiet) simp_all
  next
    case (wait f)
    then show ?thesis by (intro quiet) simp_all
  next
    case (slot_drain f)
    then show ?thesis by (intro quiet) auto
  next
    case (slot f w')
    then show ?thesis by (intro quiet) auto
  next
    case (spawned f)
    with ready show ?thesis by (intro quiet) (auto simp: spawn_def)
  next
    case (drain fo)
    from disconnect_shape_kept [OF ok parts(1,2) refl, of "s_now s" statusCodeNormal "gostr ''agent is shutting down''"]
    have "shape (types_of (w_conn (s_w s'))) (w_goodbyeSent (s_w s')) (w_disconnectOnce (s_w s')) False \<and>
        (w_disconnectOnce (s_w s') \<longrightarrow> w_goodbyeSent (s_w s')) \<and> w_ready (s_w s') = w_ready (s_w s)"
      using drain by (cases fo) (simp_all add: drained_def drain_def)
    moreover have "s_read s' = RClose None" "s_hs s' = s_hs s" using drain by (simp_all add: drained_def Let_def)
    ultimately show ?thesis using parts(3) by (intro log_shapeI) (auto elim: shape_mono)
  next
    case (closing r)
    with close_conn [OF ok(2)] show ?thesis by (intro quiet) simp_all
  next
    case (cancel r)
    then show ?thesis by (intro quiet) simp_all
  qed
qed

lemma handler_next_fields:
  assumes "sys_ok s" and "handler_next tx now req h (s_w s) = Some (h', w')"
  shows "w_ready w' = w_ready (s_w s) \<and> w_maxFrameSize w' = w_maxFrameSize (s_w s) \<and> w_done w' = w_done (s_w s) \<and>
    nc_rdeadline (t_conn (w_conn w')) = nc_rdeadline (t_conn (w_conn (s_w s)))"
proof -
  have ok: "request_pool_ok (w_pools (s_w s))" "conn_ok (w_conn (s_w s))" using assms(1) by (simp_all add: sys_ok_def)
  show ?thesis
  proof (cases rule: handler_next_cases [OF ok assms(2)])
    case (3 e f ack r)
    show ?thesis by (rule reports_shape [OF 3(3) ok]) (simp add: conn_grows_def)
  qed (use close_conn [OF ok(2)] in \<open>auto simp: conn_grows_def\<close>)
qed

lemma log_shape_handler:
  assumes "sys_ok s" and "log_shape s" and "handler_step tx i req s = Some s'"
  shows "log_shape s'"
proof -
  have ok: "request_pool_ok (w_pools (s_w s))" "conn_ok (w_conn (s_w s))" using assms(1) by (simp_all add: sys_ok_def)
  obtain h w where i: "i < length (s_hs s)" and n: "handler_next tx (s_now s) req (s_hs s ! i) (s_w s) = Some (h, w)"
    and s': "s' = s\<lparr>s_w := w, s_hs := (s_hs s)[i := h]\<rparr>"
    by (rule handler_step_cases [OF assms(3)])
  note parts = log_shape_parts [OF assms(2)]
  have ready: "w_ready (s_w s)" using parts(3) i by fastforce
  have keep: "w_ready w = w_ready (s_w s)" using handler_next_fields [OF assms(1) n] by simp
  have "shape (types_of (w_conn w)) (w_goodbyeSent w) (w_disconnectOnce w) (exiting (s_read s)) \<and>
      (w_disconnectOnce w \<longrightarrow> w_goodbyeSent w)"
  proof (cases rule: handler_next_cases [OF ok n])
    case (1 f r ps)
    with parts show ?thesis by simp
  next
    case (2 f r ack c ps)
    from grows_types [OF 2(7)] show ?thesis
    proof (elim disjE exE conjE)
      assume "types_of c = types_of (w_conn (s_w s))"
      with 2(3) parts show ?thesis by simp
    next
      fix b
      assume b: "types_of c = types_of (w_conn (s_w s)) @ [wire_type b]" "\<not> w_goodbyeSent (s_w s)" "wire_type b = TypeAgentAck"
      then have "shape (types_of (w_conn (s_w s))) False (w_disconnectOnce (s_w s)) (exiting (s_read s))"
        using parts(1) by simp
      from shape_ack [OF this] b 2(3) parts(2) show ?thesis by simp
    qed
  next
    case (3 e f ack r)
    from reports_shape_kept [OF 3(3) ok parts(1,2)] show ?thesis by simp
  next
    case (4 f ack r)
    with parts close_conn [OF ok(2)] types_of_log(1) [of "w_conn w" "w_conn (s_w s)"] show ?thesis by simp
  next
    case (5 f ack r)
    with parts show ?thesis by simp
  qed (use parts in simp_all)
  with s' ready keep show ?thesis by (intro log_shapeI) simp_all
qed

text \<open>A NOTIFY waits for a slot only once the handshake is done.\<close>

definition slot_ready :: "system \<Rightarrow> bool" where
  "slot_ready s \<longleftrightarrow> (\<forall>f. s_read s \<in> {RAcquire f, RSlot f, RSpawn f} \<longrightarrow> w_ready (s_w s))"

lemma slot_ready_fire:
  assumes "sys_ok s" and "slot_ready s" and "fire tx ev s = Some s'"
  shows "slot_ready s'"
proof (cases ev)
  case (EvRead src pick)
  with assms(3) have "read_step tx src pick s = Some s'" by (simp add: fire_def)
  with assms(1) show ?thesis
    by (cases rule: read_step_cases)
       (use assms(2) in \<open>auto simp: slot_ready_def spawn_def drained_def Let_def split: option.splits\<close>)
next
  case (EvHandler i req)
  with assms(3) have "handler_step tx i req s = Some s'" by (simp add: fire_def)
  then obtain h w where "handler_next tx (s_now s) req (s_hs s ! i) (s_w s) = Some (h, w)"
    and "s' = s\<lparr>s_w := w, s_hs := (s_hs s)[i := h]\<rparr>"
    by (rule handler_step_cases)
  with handler_next_fields [OF assms(1)] assms(2) show ?thesis by (auto simp: slot_ready_def)
qed (use assms(2,3) in \<open>auto simp: fire_def slot_ready_def poke_def case_prod_beta split: if_splits\<close>)

lemma log_shape_fire:
  assumes "sys_ok s" and "slot_ready s" and "log_shape s" and "fire tx ev s = Some s'"
  shows "log_shape s'"
proof (cases ev)
  case (EvRead src pick)
  with assms(4) have "read_step tx src pick s = Some s'" by (simp add: fire_def)
  from log_shape_read [OF assms(1,3) this] assms(2) show ?thesis by (auto simp: slot_ready_def)
next
  case (EvHandler i req)
  with assms log_shape_handler show ?thesis by (simp add: fire_def)
next
  case EvPoke
  obtain err c where d: "SetReadDeadline (Some (s_now s)) (w_conn (s_w s)) = (err, c)" by fastforce
  have "log_of c = log_of (w_conn (s_w s))"
    using SetReadDeadline_quiet [OF _ d] assms(1) by (simp add: sys_ok_def conn_quiet_def)
  with EvPoke assms(4) d show ?thesis
    by (intro log_shape_quiet [OF assms(3)]) (auto simp: fire_def poke_def split: if_splits)
next
  case EvForceClose
  have "log_of (snd (Close (w_conn (s_w s)))) = log_of (w_conn (s_w s))" by (rule Close_simps)
  with EvForceClose assms(4) show ?thesis
    by (intro log_shape_quiet [OF assms(3)]) (auto simp: fire_def split: if_splits)
qed (use assms(4) in \<open>auto simp: fire_def split: if_splits intro!: log_shape_quiet [OF assms(3)]\<close>)

section \<open>Acknowledgements\<close>

definition acks :: "Conn \<Rightarrow> bytes list" where
  "acks c = filter (\<lambda>b. wire_type b = TypeAgentAck) (map fst (log_of c))"

fun owed :: "hpc \<Rightarrow> (u64 \<times> u64) option" where
  "owed (HStart f) = Some (f_StreamID f, f_FrameID f)"
| "owed (HRun f r) = Some (f_StreamID f, f_FrameID f)"
| "owed _ = None"

definition owes :: "u64 \<times> u64 \<Rightarrow> hpc \<Rightarrow> int" where
  "owes x h = (if owed h = Some x then 1 else 0)"

text \<open>For every pair of identifiers: the ACKs written and those still to come are no more than the
  NOTIFYs dispatched. Every ACK written is within the limit of the connection.\<close>

definition ack_account :: "system \<Rightarrow> bool" where
  "ack_account s \<longleftrightarrow>
     (\<forall>x. int (count_list (map wire_ids (acks (w_conn (s_w s)))) x) + (\<Sum>h\<leftarrow>s_hs s. owes x h) \<le>
        int (count_list (s_notified s) x)) \<and>
     (\<forall>b \<in> set (acks (w_conn (s_w s))). wire_len b \<le> frameLimit (s_w s))"

lemma acks_log: "log_of c' = log_of c \<Longrightarrow> acks c' = acks c" "log_of c = [] \<Longrightarrow> acks c = []"
  by (simp_all add: acks_def)

lemma quiet_acks: "conn_quiet c c' \<Longrightarrow> acks c' = acks c" "acks (snd (Close c)) = acks c"
  by (simp_all add: conn_quiet_def acks_def go_simps)

lemma grows_acks:
  assumes "conn_grows P c c'"
  shows "acks c' = acks c \<or> (\<exists>b. acks c' = acks c @ [b] \<and> P b \<and> wire_type b = TypeAgentAck)"
proof -
  from assms consider "log_of c' = log_of c" | b n where "log_of c' = log_of c @ [(b, n)]" "P b"
    by (auto simp: conn_grows_def)
  then show ?thesis
  proof cases
    case 1
    then show ?thesis by (simp add: acks_def)
  next
    case (2 b n)
    then show ?thesis by (cases "wire_type b = TypeAgentAck") (simp_all add: acks_def)
  qed
qed

lemma reports_acks:
  assumes "reports w w'" and "request_pool_ok (w_pools w)" and "conn_ok (w_conn w)"
  shows "acks (w_conn w') = acks (w_conn w) \<and> w_maxFrameSize w' = w_maxFrameSize w"
proof (rule reports_shape [OF assms])
  fix g d c ps
  assume w': "w' = w\<lparr>w_goodbyeSent := g, w_conn := c, w_pools := ps, w_disconnectOnce := d\<rparr>"
    and "conn_grows (\<lambda>b. \<not> w_disconnectOnce w \<and> d \<and> g \<and> wire_type b = TypeAgentDisconnect) (w_conn w) c"
  from grows_acks [OF this(2)] have "acks c = acks (w_conn w)" by (auto simp: frame_type_defs)
  with w' show ?thesis by simp
qed

lemma ack_account_same:
  assumes "ack_account s" and "acks (w_conn (s_w s')) = acks (w_conn (s_w s))"
    and "w_maxFrameSize (s_w s') = w_maxFrameSize (s_w s)" and "s_hs s' = s_hs s" and "s_notified s' = s_notified s"
  shows "ack_account s'"
proof -
  have "frameLimit (s_w s') = frameLimit (s_w s)" using assms(3) by (simp add: frameLimit_def)
  with assms show ?thesis by (simp add: ack_account_def)
qed

lemma ack_account_start: "worker_start s \<Longrightarrow> ack_account s"
  by (auto simp: worker_start_def ack_account_def Handle_def acks_log(2))

lemma ack_account_read:
  assumes "sys_ok s" and "log_shape s" and "ack_account s" and "read_step tx src pick s = Some s'"
  shows "ack_account s'"
proof -
  have ok: "request_pool_ok (w_pools (s_w s))" "conn_ok (w_conn (s_w s))" using assms(1) by (simp_all add: sys_ok_def)
  note same = ack_account_same [OF assms(3)]
  show ?thesis
    using assms(1,4)
  proof (cases rule: read_step_cases)
    case (acquire f ps)
    then show ?thesis by (intro same) simp_all
  next
    case (arm f c pc)
    then show ?thesis by (intro same) (simp_all add: quiet_acks)
  next
    case (arm_fail f c e)
    then show ?thesis by (intro same) (simp_all add: quiet_acks)
  next
    case (read f f' ps)
    then show ?thesis by (intro same) simp_all
  next
    case (read_fail f f' ps w' pc)
    let ?u = "drop_frame f' ((s_w s)\<lparr>w_pools := ps\<rparr>)"
    have "request_pool_ok (w_pools ?u)" "conn_ok (w_conn ?u)"
      using read_fail ok ReleaseFrame_request_ok [of ps f'] by (simp_all add: pools_add_def)
    from reports_acks [OF read_fail(5) this] read_fail(2) show ?thesis by (intro same) simp_all
  next
    case (hello f m e r c ps pc)
    then have "log_of (w_conn (s_w s)) = []" "s_hs s = []" using log_shape_parts [OF assms(2)] by simp_all
    moreover from this(1) grows_acks [OF hello(4)] have "acks c = []" by (auto simp: acks_log(2) frame_type_defs)
    ultimately show ?thesis using hello(3) by (simp add: ack_account_def)
  next
    case (refuse f x code msg)
    with reports_acks [OF reports_disconnect ok] show ?thesis by (intro same) simp_all
  next
    case (bye f x c ps)
    from grows_acks [OF bye(4)] have "acks c = acks (w_conn (s_w s))" by (auto simp: frame_type_defs)
    with bye show ?thesis by (intro same) simp_all
  next
    case (slot f w')
    then show ?thesis by (intro same) auto
  next
    case (spawned f)
    with assms(3) show ?thesis
      by (auto simp: ack_account_def spawn_def owes_def frameLimit_def)
  next
    case (drain fo)
    with reports_acks [OF reports_disconnect ok] show ?thesis
      by (cases fo) (auto intro!: same simp: drained_def drain_def Let_def)
  next
    case (closing r)
    then show ?thesis by (intro same) (simp_all add: quiet_acks)
  qed (auto intro!: same)
qed

lemma ack_account_handler:
  assumes "sys_ok s" and "ack_account s" and "handler_step tx i req s = Some s'"
  shows "ack_account s'"
proof -
  have ok: "request_pool_ok (w_pools (s_w s))" "conn_ok (w_conn (s_w s))" using assms(1) by (simp_all add: sys_ok_def)
  obtain h w where i: "i < length (s_hs s)" and n: "handler_next tx (s_now s) req (s_hs s ! i) (s_w s) = Some (h, w)"
    and s': "s' = s\<lparr>s_w := w, s_hs := (s_hs s)[i := h]\<rparr>"
    by (rule handler_step_cases [OF assms(3)])
  have lim: "frameLimit w = frameLimit (s_w s)"
    using handler_next_fields [OF assms(1) n] by (simp add: frameLimit_def)
  have quiet: "ack_account s'" if "acks (w_conn w) = acks (w_conn (s_w s))" "owed h = owed (s_hs s ! i) \<or> owed h = None"
  proof -
    have le: "owes x h \<le> owes x (s_hs s ! i)" for x using that(2) by (auto simp: owes_def)
    have acc: "int (count_list (map wire_ids (acks (w_conn (s_w s)))) x) + (\<Sum>h\<leftarrow>s_hs s. owes x h) \<le>
        int (count_list (s_notified s) x)" for x
      using assms(2) unfolding ack_account_def by blast
    have "int (count_list (map wire_ids (acks (w_conn w))) x) + (\<Sum>h\<leftarrow>(s_hs s)[i := h]. owes x h) \<le>
        int (count_list (s_notified s) x)" for x
      unfolding sum_update [OF i] that(1) using le [of x] acc [of x] by linarith
    with assms(2) s' that(1) lim show ?thesis by (simp add: ack_account_def)
  qed
  show ?thesis
  proof (cases rule: handler_next_cases [OF ok n])
    case (1 f r ps)
    then show ?thesis by (intro quiet) simp_all
  next
    case (2 f r ack c ps)
    have gone: "owed h = None" using 2(2) by auto
    from grows_acks [OF 2(7)] show ?thesis
    proof (elim disjE exE conjE)
      assume "acks c = acks (w_conn (s_w s))"
      with 2(3) gone show ?thesis by (intro quiet) simp_all
    next
      fix b
      assume b: "acks c = acks (w_conn (s_w s)) @ [b]" "wire_ids b = (f_StreamID f, f_FrameID f)" "wire_len b \<le> frameLimit (s_w s)"
      have "owes x h = 0" "owes x (s_hs s ! i) = (if x = wire_ids b then 1 else 0)" for x
        using gone 2(1) b(2) by (auto simp: owes_def)
      with assms(2) s' b 2(3) lim show ?thesis
        by (auto simp: ack_account_def sum_update [OF i])
    qed
  next
    case (3 e f ack r)
    with reports_acks [OF 3(3) ok] show ?thesis by (intro quiet) simp_all
  next
    case (4 f ack r)
    then show ?thesis by (intro quiet) (simp_all add: quiet_acks)
  next
    case (5 f ack r)
    then show ?thesis by (intro quiet) simp_all
  qed (auto intro!: quiet)
qed

lemma ack_account_fire:
  assumes "sys_ok s" and "log_shape s" and "ack_account s" and "fire tx ev s = Some s'"
  shows "ack_account s'"
proof (cases ev)
  case (EvRead src pick)
  with assms ack_account_read show ?thesis by (simp add: fire_def)
next
  case (EvHandler i req)
  with assms ack_account_handler show ?thesis by (simp add: fire_def)
next
  case EvPoke
  obtain err c where d: "SetReadDeadline (Some (s_now s)) (w_conn (s_w s)) = (err, c)" by fastforce
  have "acks c = acks (w_conn (s_w s))"
    using SetReadDeadline_quiet [OF _ d] assms(1) quiet_acks(1) by (simp add: sys_ok_def)
  with EvPoke assms(4) d show ?thesis
    by (intro ack_account_same [OF assms(3)]) (auto simp: fire_def poke_def split: if_splits)
next
  case EvForceClose
  with assms(4) quiet_acks(2) show ?thesis
    by (intro ack_account_same [OF assms(3)]) (auto simp: fire_def split: if_splits)
qed (use assms(4) in \<open>auto simp: fire_def split: if_splits intro!: ack_account_same [OF assms(3)]\<close>)

section \<open>Waking a read loop\<close>

text \<open>Once the drain's wake-up has reached the socket, a read loop that is about to read or reading
  has a read deadline that has passed.\<close>

definition woken :: "system \<Rightarrow> bool" where
  "woken s \<longleftrightarrow> (s_poked s \<longrightarrow> shuttingDown (s_w s) \<and>
     (\<forall>f. s_read s = RRead f \<longrightarrow> (\<exists>t. nc_rdeadline (t_conn (w_conn (s_w s))) = Some t \<and> t \<le> s_now s)))"

lemma woken_start: "worker_start s \<Longrightarrow> woken s"
  by (auto simp: worker_start_def woken_def)

lemma reports_done:
  assumes "reports w w'"
  shows "w_done w' = w_done w"
proof -
  have "w_done (snd (sendAgentDisconnect now code msg w)) = w_done w" for now code msg
    by (simp add: sendAgentDisconnect_def Let_def case_prod_beta split: option.split)
  with assms show ?thesis by (auto simp: reports_def disconnect_def)
qed

lemma woken_read:
  assumes "sys_ok s" and "woken s" and "read_step tx src pick s = Some s'"
  shows "woken s'"
  using assms(1,3)
proof (cases rule: read_step_cases)
  case (arm f c pc)
  with assms(2) show ?thesis by (auto simp: woken_def shuttingDown_def)
next
  case (read_fail f f' ps w' pc)
  from reports_done [OF read_fail(5)] read_fail(2,6) assms(2) show ?thesis by (auto simp: woken_def shuttingDown_def)
next
  case (refuse f x code msg)
  with reports_done [OF reports_disconnect] assms(2) show ?thesis by (simp add: woken_def shuttingDown_def)
next
  case (drain fo)
  with reports_done [OF reports_disconnect] assms(2) show ?thesis
    by (cases fo) (simp_all add: woken_def shuttingDown_def drained_def drain_def Let_def)
next
  case (slot f w')
  with assms(2) show ?thesis by (auto simp: woken_def shuttingDown_def)
next
  case (spawned f)
  with assms(2) show ?thesis by (auto simp: woken_def shuttingDown_def spawn_def)
qed (use assms(2) in \<open>auto simp: woken_def shuttingDown_def\<close>)

lemma woken_fire:
  assumes "sys_ok s" and "woken s" and "fire tx ev s = Some s'"
  shows "woken s'"
proof (cases ev)
  case (EvRead src pick)
  with assms woken_read show ?thesis by (simp add: fire_def)
next
  case (EvHandler i req)
  with assms(3) have "handler_step tx i req s = Some s'" by (simp add: fire_def)
  then obtain h w where "handler_next tx (s_now s) req (s_hs s ! i) (s_w s) = Some (h, w)"
    and "s' = s\<lparr>s_w := w, s_hs := (s_hs s)[i := h]\<rparr>"
    by (rule handler_step_cases)
  with handler_next_fields [OF assms(1)] assms(2) show ?thesis by (auto simp: woken_def shuttingDown_def)
next
  case EvPoke
  obtain err c where d: "SetReadDeadline (Some (s_now s)) (w_conn (s_w s)) = (err, c)" by fastforce
  with EvPoke assms SetReadDeadline_quiet [OF _ d] show ?thesis
    by (auto simp: fire_def poke_def woken_def sys_ok_def shuttingDown_def split: if_splits)
next
  case EvForceClose
  with assms(2,3) close_conn assms(1) show ?thesis
    by (auto simp: fire_def woken_def shuttingDown_def sys_ok_def split: if_splits)
next
  case (EvTick d)
  with assms(2,3) show ?thesis by (fastforce simp: fire_def woken_def)
qed (use assms(2,3) in \<open>auto simp: fire_def woken_def shuttingDown_def split: if_splits\<close>)

section \<open>All together\<close>

definition worker_inv :: "system \<Rightarrow> system \<Rightarrow> bool" where
  "worker_inv s0 s \<longleftrightarrow> sys_ok s \<and> slots_account s0 s \<and> pools_account s0 s \<and> slot_ready s \<and> log_shape s \<and>
     ack_account s \<and> woken s"

lemma slot_ready_start: "worker_start s \<Longrightarrow> slot_ready s"
  by (auto simp: worker_start_def slot_ready_def)

interpretation wsys: event_invariant "fire tx" worker_start worker_inv for tx
proof unfold_locales
  fix s0
  assume "worker_start s0"
  then show "worker_inv s0 s0"
    by (simp add: worker_inv_def sys_ok_start slots_account_start pools_account_start slot_ready_start log_shape_start
        ack_account_start woken_start)
next
  fix s0 s e s'
  assume "worker_inv s0 s" and "fire tx e s = Some s'"
  then show "worker_inv s0 s'"
    by (auto simp: worker_inv_def intro: sys_ok_fire slots_account_fire pools_account_fire slot_ready_fire log_shape_fire
        ack_account_fire woken_fire)
qed

interpretation wgate: slot_gate w_slots shuttingDown acquireSlot_select releaseSlot
  by unfold_locales
     (auto simp: acquireSlot_select_def releaseSlot_def shuttingDown_def split: if_splits option.splits)

end
