(* ===== verification/Agent_Invariants.thy ===== *)
theory Agent_Invariants
  imports Agent_System Worker_Invariants
begin

text \<open>
  The invariants of the agent: each connection's goroutine is a reachable worker, the roster and the
  WaitGroup count the connections alive, the slots taken are held by someone, every listener in use is
  known to \<open>Shutdown\<close>, and what each call of \<open>Shutdown\<close> has done so far holds.
\<close>

section \<open>What a worker's own steps leave alone\<close>

definition conn_closed :: "system \<Rightarrow> bool" where
  "conn_closed s = t_closed (w_conn (s_w s))"

definition steady :: "system \<Rightarrow> system \<Rightarrow> bool" where
  "steady s s' \<longleftrightarrow> w_done (s_w s') = w_done (s_w s) \<and> s_now s' = s_now s \<and> s_poked s' = s_poked s \<and>
     (stopped s \<longrightarrow> stopped s') \<and> (conn_closed s \<longrightarrow> conn_closed s')"

lemma reports_closed:
  assumes "reports w w'" and "request_pool_ok (w_pools w)" and "conn_ok (w_conn w)"
  shows "t_closed (w_conn w') = t_closed (w_conn w)"
  by (rule reports_shape [OF assms]) (simp add: conn_grows_def)

lemma steady_read:
  assumes "sys_ok s" and "read_step tx src pick s = Some s'"
  shows "steady s s' \<and> \<not> stopped s \<and> (stopped s' \<longrightarrow> (\<exists>r. s_read s = RCancel r)) \<and>
    (\<forall>r. s_read s' = RCancel r \<longrightarrow> conn_closed s')"
proof -
  have ok: "request_pool_ok (w_pools (s_w s))" "conn_ok (w_conn (s_w s))" using assms(1) by (simp_all add: sys_ok_def)
  note simps = steady_def stopped_def conn_closed_def conn_quiet_def conn_grows_def
  show ?thesis
    using assms
  proof (cases rule: read_step_cases)
    case (arm f c pc)
    then show ?thesis by (auto simp: simps arming_def)
  next
    case (arm_fail f c e)
    then show ?thesis by (auto simp: simps arming_def)
  next
    case (read_fail f f' ps w' pc)
    have "request_pool_ok ps" using read_fail(4) by (simp add: pools_add_def)
    then have "request_pool_ok (ReleaseFrame f' ps)" by (rule ReleaseFrame_request_ok [OF _ read_fail(3)])
    with reports_closed [OF read_fail(5)] reports_done [OF read_fail(5)] read_fail ok show ?thesis by (auto simp: simps)
  next
    case (refuse f x code msg)
    with reports_done [OF reports_disconnect] reports_closed [OF reports_disconnect ok] show ?thesis by (simp add: simps)
  next
    case (slot f w')
    then show ?thesis by (auto simp: simps)
  next
    case (spawned f)
    then show ?thesis by (auto simp: simps spawn_def)
  next
    case (drain fo)
    with reports_done [OF reports_disconnect] reports_closed [OF reports_disconnect ok] show ?thesis
      by (cases fo) (simp_all add: simps drained_def drain_def Let_def)
  next
    case (slot_drain f)
    then show ?thesis by (auto simp: simps)
  qed (auto simp: simps go_simps)
qed

lemma steady_handler:
  assumes "sys_ok s" and "handler_step tx i req s = Some s'"
  shows "steady s s' \<and> s_read s' = s_read s"
proof -
  have ok: "request_pool_ok (w_pools (s_w s))" "conn_ok (w_conn (s_w s))" using assms(1) by (simp_all add: sys_ok_def)
  obtain h w where n: "handler_next tx (s_now s) req (s_hs s ! i) (s_w s) = Some (h, w)"
    and s': "s' = s\<lparr>s_w := w, s_hs := (s_hs s)[i := h]\<rparr>"
    by (rule handler_step_cases [OF assms(2)])
  have "t_closed (w_conn (s_w s)) \<longrightarrow> t_closed (w_conn w)"
  proof (cases rule: handler_next_cases [OF ok n])
    case (3 e f ack r)
    show ?thesis using reports_closed [OF 3(3) ok] by simp
  qed (auto simp: conn_grows_def go_simps)
  with s' handler_next_fields [OF assms(1) n] show ?thesis by (simp add: steady_def stopped_def conn_closed_def)
qed

lemma steady_worker:
  assumes "sys_ok s" and "fire tx ev s = Some s'" and "worker_event ev"
  shows "steady s s'"
  using assms steady_read [of s tx] steady_handler [of s tx]
  by (cases ev)
     (auto simp: fire_def worker_event_def steady_def stopped_def conn_closed_def split: if_splits)

text \<open>The read loop cancels the context only after it has closed the connection, and nothing opens
  a connection again.\<close>

definition exit_closed :: "system \<Rightarrow> system \<Rightarrow> bool" where
  "exit_closed s0 s \<longleftrightarrow> sys_ok s \<and> ((\<exists>r. s_read s = RCancel r) \<or> stopped s \<longrightarrow> conn_closed s)"

lemma poke_fields [simp]:
  "s_read (poke s) = s_read s" "s_hs (poke s) = s_hs s" "s_now (poke s) = s_now s"
  "w_done (s_w (poke s)) = w_done (s_w s)" "stopped (poke s) = stopped s" "conn_closed (poke s) = conn_closed s"
  "s_poked (poke s) \<longleftrightarrow> s_poked s \<or> fst (SetReadDeadline (Some (s_now s)) (w_conn (s_w s))) = None"
  using SetReadDeadline_keep(1) [of "Some (s_now s)" "w_conn (s_w s)"]
  by (simp_all add: poke_def stopped_def conn_closed_def case_prod_beta)

interpretation wexit: event_invariant "fire tx" worker_start exit_closed for tx
proof unfold_locales
  fix s0
  assume "worker_start s0"
  then show "exit_closed s0 s0"
    using sys_ok_start [of s0] by (auto simp: exit_closed_def worker_start_def stopped_def)
next
  fix s0 s e s'
  assume inv: "exit_closed s0 s" and f: "fire tx e s = Some s'"
  then have ok: "sys_ok s" by (simp add: exit_closed_def)
  note ok' = sys_ok_fire [OF ok f]
  show "exit_closed s0 s'"
  proof (cases e)
    case (EvRead src pick)
    then have r: "read_step tx src pick s = Some s'" using f by (simp add: fire_def)
    note st = steady_read [OF ok r]
    have "conn_closed s'" if "stopped s'"
    proof -
      from st that inv have "conn_closed s" by (auto simp: exit_closed_def)
      with st show ?thesis by (simp add: steady_def)
    qed
    with st ok' show ?thesis by (auto simp: exit_closed_def)
  next
    case (EvHandler i req)
    with f steady_handler [OF ok] inv ok' show ?thesis
      by (auto simp: fire_def exit_closed_def steady_def stopped_def)
  next
    case EvPoke
    with f inv ok' show ?thesis by (auto simp: fire_def exit_closed_def split: if_splits)
  qed (use f inv ok' in \<open>auto simp: fire_def exit_closed_def stopped_def conn_closed_def go_simps split: if_splits\<close>)
qed

section \<open>Steps of Serve\<close>

text \<open>The positions of \<open>Serve\<close> that hold a connection slot, and the listener a position uses.\<close>

definition holds_slot :: "spc \<Rightarrow> bool" where
  "holds_slot pc = (case pc of SAccept l b \<Rightarrow> True | STrack l c \<Rightarrow> True | SRefused c \<Rightarrow> True | _ \<Rightarrow> False)"

definition listener_of :: "spc \<Rightarrow> nat option" where
  "listener_of pc =
     (case pc of SAcquire l b \<Rightarrow> Some l | SSelect l b \<Rightarrow> Some l | SAccept l b \<Rightarrow> Some l | STrack l c \<Rightarrow> Some l
      | SFailed l b e \<Rightarrow> Some l | SPause l b u \<Rightarrow> Some l | _ \<Rightarrow> None)"

definition new_conn :: "Agent \<Rightarrow> Conn \<Rightarrow> bool" where
  "new_conn a c \<longleftrightarrow> (\<exists>script. c = SetWriteTimeout (tm_Write (a_timeouts a)) (NewConn (fresh_net script)))"

definition carries_new :: "Agent \<Rightarrow> spc \<Rightarrow> bool" where
  "carries_new a pc = (case pc of STrack l c \<Rightarrow> new_conn a c | SRefused c \<Rightarrow> new_conn a c | _ \<Rightarrow> True)"

lemmas spc_simps = holds_slot_def listener_of_def carries_new_def

lemma serve_next_cases:
  assumes "serve_next res pick now c pc a = Some (pc', a', out)"
  obtains
    (enter) l where "pc = SEnter l" "\<not> a_draining a" "pc' = SAcquire l 0"
      "a' = a\<lparr>a_listeners := a_listeners a @ [l]\<rparr>" "out = Quiet"
  | (slot) l b cap held where "pc = SSelect l b" "pc' = SAccept l b" "out = Quiet" "a_connSlots a = Some (cap, held)"
      "held < cap" "a' = a\<lparr>a_connSlots := Some (cap, Suc held)\<rparr>"
  | (free) l b where "pc = SAcquire l b" "pc' = SAccept l b" "out = Quiet" "a_connSlots a = None" "a' = a"
  | (accept) l b conn where "pc = SAccept l b" "pc' = STrack l conn" "out = Quiet" "new_conn a conn" "a' = a"
  | (fail) l b err where "pc = SAccept l b" "pc' = SFailed l b err" "out = Quiet" "a' = releaseConn a"
  | (track) l conn where "pc = STrack l conn" "pc' = SAcquire l 0" "out = Started conn" "\<not> a_draining a"
      "a' = a\<lparr>a_conns := List.insert c (a_conns a), a_wg := a_wg a + 1\<rparr>"
  | (late) l conn where "pc = STrack l conn" "pc' = SRefused conn" "out = Quiet" "a_draining a" "a' = a"
  | (refuse) conn where "pc = SRefused conn" "pc' = SReturned ErrShutdown" "out = Refused (snd (Close conn))" "a' = releaseConn a"
  | (stay) "\<not> holds_slot pc" "\<not> holds_slot pc'" "listener_of pc' = listener_of pc \<or> listener_of pc' = None"
      "carries_new a pc'" "out = Quiet" "a' = a"
proof (cases pc)
  case (SEnter l)
  with assms show ?thesis
    by (cases "a_draining a") (auto simp: serve_next_def addListener_def spc_simps intro: enter stay)
next
  case (SAcquire l b)
  with assms show ?thesis
    by (cases "a_connSlots a") (auto simp: serve_next_def acquireConn_def spc_simps split: if_splits intro: free stay)
next
  case (SSelect l b)
  with assms obtain ok where s: "acquireConn_select pick a = Some (ok, a')" "out = Quiet"
    "pc' = (if ok then SAccept l b else SReturned ErrShutdown)"
    by (auto simp: serve_next_def split: option.splits)
  show ?thesis
  proof (cases ok)
    case True
    with s obtain cap held where "a_connSlots a = Some (cap, held)" "held < cap" "a' = a\<lparr>a_connSlots := Some (cap, Suc held)\<rparr>"
      by (auto simp: acquireConn_select_def split: if_splits option.splits)
    with s True SSelect show ?thesis by (intro slot) simp_all
  next
    case False
    with s have "a' = a" by (auto simp: acquireConn_select_def split: if_splits option.splits)
    with s False SSelect show ?thesis by (intro stay) (simp_all add: spc_simps)
  qed
next
  case (SAccept l b)
  show ?thesis
  proof (cases res)
    case (Accepted script)
    with SAccept assms show ?thesis by (intro accept) (auto simp: serve_next_def new_conn_def)
  next
    case (AcceptFailed err)
    with SAccept assms show ?thesis by (intro fail) (auto simp: serve_next_def)
  qed
next
  case (STrack l conn)
  with assms show ?thesis
    by (cases "a_draining a") (auto simp: serve_next_def Agent.track_def intro: track late)
next
  case (SRefused conn)
  with assms show ?thesis by (auto simp: serve_next_def intro: refuse)
next
  case (SFailed l b e)
  with assms show ?thesis
    by (auto simp: serve_next_def spc_simps Let_def split: if_splits intro: stay)
next
  case (SPause l b u)
  with assms show ?thesis
    by (auto simp: serve_next_def spc_simps split: if_splits option.splits intro: stay)
next
  case (SReturned r)
  with assms show ?thesis by (simp add: serve_next_def)
qed

section \<open>Roster, WaitGroup and slots\<close>

lemma count_sum: "int (length (filter P xs)) = (\<Sum>x\<leftarrow>xs. if P x then 1 else 0)"
  by (induction xs) simp_all

lemma filter_update:
  "i < length xs \<Longrightarrow> int (length (filter P (xs[i := x]))) =
     int (length (filter P xs)) + (if P x then 1 else 0) - (if P (xs ! i) then 1 else 0)"
  unfolding count_sum by (rule sum_update)

lemma filter_positive: "i < length xs \<Longrightarrow> P (xs ! i) \<Longrightarrow> 0 < length (filter P xs)"
  by (auto simp: filter_empty_conv)

abbreviation counted :: "conn_go \<Rightarrow> bool" where
  "counted c \<equiv> c_pc c = CRunning \<or> c_pc c = CDeleted"

abbreviation alive :: "conn_go \<Rightarrow> bool" where
  "alive c \<equiv> c_pc c \<noteq> CGone"

definition roster_ok :: "agent_sys \<Rightarrow> bool" where
  "roster_ok g \<longleftrightarrow> distinct (a_conns (g_a g)) \<and>
     (\<forall>i. i \<in> set (a_conns (g_a g)) \<longleftrightarrow> i < length (g_conns g) \<and> c_pc (g_conns g ! i) = CRunning) \<and>
     a_wg (g_a g) = int (length (filter counted (g_conns g)))"

definition conn_slots_ok :: "agent_sys \<Rightarrow> agent_sys \<Rightarrow> bool" where
  "conn_slots_ok g0 g \<longleftrightarrow>
     (case a_connSlots (g_a g) of
        None \<Rightarrow> a_connSlots (g_a g0) = None
      | Some (cap, held) \<Rightarrow>
          held = length (filter holds_slot (g_serves g)) + length (filter alive (g_conns g)) \<and> held \<le> cap \<and>
          map_option fst (a_connSlots (g_a g0)) = Some cap)"

text \<open>Events that touch neither the roster nor the slots: the positions of the connections and what
  the calls of \<open>Serve\<close> hold stay as they are.\<close>

lemma same_positions:
  assumes "map c_pc (g_conns g') = map c_pc (g_conns g)"
  shows "length (g_conns g') = length (g_conns g)"
    and "i < length (g_conns g) \<Longrightarrow> c_pc (g_conns g' ! i) = c_pc (g_conns g ! i)"
    and "length (filter (\<lambda>c. P (c_pc c)) (g_conns g')) = length (filter (\<lambda>c. P (c_pc c)) (g_conns g))"
proof -
  show l: "length (g_conns g') = length (g_conns g)" using assms by (rule map_eq_imp_length_eq)
  show "i < length (g_conns g) \<Longrightarrow> c_pc (g_conns g' ! i) = c_pc (g_conns g ! i)" using assms l by (metis nth_map)
  have m: "length (filter (\<lambda>c. P (c_pc c)) cs) = length (filter P (map c_pc cs))" for cs
    by (induction cs) simp_all
  show "length (filter (\<lambda>c. P (c_pc c)) (g_conns g')) = length (filter (\<lambda>c. P (c_pc c)) (g_conns g))"
    unfolding m assms ..
qed

definition same_books :: "agent_sys \<Rightarrow> agent_sys \<Rightarrow> bool" where
  "same_books g g' \<longleftrightarrow> map c_pc (g_conns g') = map c_pc (g_conns g) \<and>
     filter holds_slot (g_serves g') = filter holds_slot (g_serves g) \<and>
     a_conns (g_a g') = a_conns (g_a g) \<and> a_wg (g_a g') = a_wg (g_a g) \<and> a_connSlots (g_a g') = a_connSlots (g_a g)"

lemma same_books_keeps:
  assumes "same_books g g'"
  shows "roster_ok g \<Longrightarrow> roster_ok g'" and "conn_slots_ok g0 g \<Longrightarrow> conn_slots_ok g0 g'"
proof -
  have m: "map c_pc (g_conns g') = map c_pc (g_conns g)" using assms by (simp add: same_books_def)
  have c: "length (filter counted (g_conns g')) = length (filter counted (g_conns g))"
    "length (filter alive (g_conns g')) = length (filter alive (g_conns g))"
    using same_positions(3) [OF m, of "\<lambda>p. p = CRunning \<or> p = CDeleted"] same_positions(3) [OF m, of "\<lambda>p. p \<noteq> CGone"] by simp_all
  show "roster_ok g \<Longrightarrow> roster_ok g'"
    using assms c same_positions(1,2) [OF m] by (auto simp: roster_ok_def same_books_def)
  show "conn_slots_ok g0 g \<Longrightarrow> conn_slots_ok g0 g'"
    using assms c by (auto simp: conn_slots_ok_def same_books_def split: option.splits)
qed

lemma pc_update: "map c_pc (cs[i := (cs ! i)\<lparr>c_sys := s\<rparr>]) = map c_pc cs"
    "map c_pc (cs[i := (cs ! i)\<lparr>c_sys := s, c_wake := e\<rparr>]) = map c_pc cs"
  by (simp_all add: map_update) (metis list_update_beyond list_update_id linorder_not_less nth_map length_map)+

lemma worker_books:
  "worker_step tx i ev g = Some g' \<Longrightarrow> same_books g g'"
  by (auto simp: worker_step_def set_sys_def same_books_def pc_update split: if_splits option.splits)

lemma shut_books:
  assumes "shut_step j order pick err g = Some g'"
  shows "same_books g g'"
proof -
  from assms obtain pc h where n: "shut_next order pick err (g_shuts g ! j) g = Some (pc, h)"
    and g': "g' = h\<lparr>g_shuts := (g_shuts h)[j := pc]\<rparr>"
    by (auto simp: shut_step_def split: if_splits option.splits)
  have "map c_pc (map done_closed cs) = map c_pc cs" for cs by (simp add: done_closed_def)
  then have "same_books g h"
    using n
    by (auto simp: shut_next_def same_books_def Shutdown_begin_def wake_def force_close_def set_sys_def pc_update Let_def
        split: shpc.splits option.splits list.splits if_splits)
  with g' show ?thesis by (simp add: same_books_def)
qed

lemma tick_books: "same_books g (tick d g)"
  by (simp add: same_books_def tick_def)

text \<open>A step of \<open>Serve\<close>, as its position, the agent and the connection it starts.\<close>

lemma serve_step_cases:
  assumes "serve_step i res pick ps g = Some g'"
  obtains pc a out where "i < length (g_serves g)" "request_pool_ok ps"
    "serve_next res pick (g_now g) (length (g_conns g)) (g_serves g ! i) (g_a g) = Some (pc, a, out)"
    "g_a g' = a" "g_serves g' = (g_serves g)[i := pc]" "g_shuts g' = g_shuts g" "g_closed g' = g_closed g" "g_now g' = g_now g"
    "g_conns g' = (case out of Started c \<Rightarrow>
       g_conns g @ [\<lparr>c_pc = CRunning, c_sys = agent_worker a c ps (g_now g), c_wake = None\<rparr>] | _ \<Rightarrow> g_conns g)"
    "g_refused g' = (case out of Refused c \<Rightarrow> g_refused g @ [c] | _ \<Rightarrow> g_refused g)"
proof -
  from assms obtain pc a out where n: "i < length (g_serves g)" "request_pool_ok ps"
    "serve_next res pick (g_now g) (length (g_conns g)) (g_serves g ! i) (g_a g) = Some (pc, a, out)"
    by (auto simp: serve_step_def split: if_splits option.splits)
  with assms show ?thesis
    by (intro that [where pc = pc and a = a and out = out]) (auto simp: serve_step_def Let_def split: served.splits)
qed

lemma releaseConn_fields [simp]:
  "a_conns (releaseConn a) = a_conns a" "a_wg (releaseConn a) = a_wg a" "a_timeouts (releaseConn a) = a_timeouts a"
  "a_maxInFlight (releaseConn a) = a_maxInFlight a" "a_draining (releaseConn a) = a_draining a"
  "a_done (releaseConn a) = a_done a" "a_cancelled (releaseConn a) = a_cancelled a"
  "a_listeners (releaseConn a) = a_listeners a"
  "a_connSlots (releaseConn a) = map_option (\<lambda>(cap, held). (cap, held - 1)) (a_connSlots a)"
  by (simp_all add: releaseConn_def split: option.split)

lemma roster_serve:
  assumes "roster_ok g" and "serve_step i res pick ps g = Some g'"
  shows "roster_ok g'"
proof (rule serve_step_cases [OF assms(2)])
  fix pc a out
  assume n: "serve_next res pick (g_now g) (length (g_conns g)) (g_serves g ! i) (g_a g) = Some (pc, a, out)"
    and a: "g_a g' = a" and c: "g_conns g' = (case out of Started c \<Rightarrow>
       g_conns g @ [\<lparr>c_pc = CRunning, c_sys = agent_worker a c ps (g_now g), c_wake = None\<rparr>] | _ \<Rightarrow> g_conns g)"
  show "roster_ok g'"
    using n
  proof (cases rule: serve_next_cases)
    case (track l conn)
    let ?new = "\<lparr>c_pc = CRunning, c_sys = agent_worker a conn ps (g_now g), c_wake = None\<rparr>"
    have c': "g_conns g' = g_conns g @ [?new]" using c track by simp
    have "k \<in> set (a_conns a) \<longleftrightarrow> k < length (g_conns g') \<and> c_pc (g_conns g' ! k) = CRunning" for k
      using assms(1) track c' by (cases "k = length (g_conns g)") (simp_all add: roster_ok_def nth_append less_Suc_eq)
    with assms(1) a track c' show ?thesis by (simp add: roster_ok_def)
  qed (use assms(1) a c in \<open>simp_all add: roster_ok_def\<close>)
qed

definition held_slots :: "agent_sys \<Rightarrow> int" where
  "held_slots g = int (length (filter holds_slot (g_serves g))) + int (length (filter alive (g_conns g)))"

lemma conn_slots_move:
  assumes "conn_slots_ok g0 g" and "held_slots g' = held_slots g + d"
    and "a_connSlots (g_a g) = None \<Longrightarrow> a_connSlots (g_a g') = None"
    and "\<And>cap held. a_connSlots (g_a g) = Some (cap, held) \<Longrightarrow> int held = held_slots g \<Longrightarrow>
      \<exists>held'. a_connSlots (g_a g') = Some (cap, held') \<and> int held' = int held + d \<and> (held \<le> cap \<longrightarrow> held' \<le> cap)"
  shows "conn_slots_ok g0 g'"
proof (cases "a_connSlots (g_a g)")
  case None
  with assms(1,3) show ?thesis by (simp add: conn_slots_ok_def)
next
  case (Some p)
  obtain cap held where p: "p = (cap, held)" by fastforce
  have h: "int held = held_slots g" "held \<le> cap" "map_option fst (a_connSlots (g_a g0)) = Some cap"
    using assms(1) Some p by (simp_all add: conn_slots_ok_def held_slots_def)
  from assms(4) [OF _ h(1)] Some p h(2) obtain held' where
    "a_connSlots (g_a g') = Some (cap, held')" "int held' = int held + d" "held' \<le> cap" by auto
  with h assms(2) show ?thesis by (simp add: conn_slots_ok_def held_slots_def)
qed

lemma conn_slots_serve:
  assumes "conn_slots_ok g0 g" and "serve_step i res pick ps g = Some g'"
  shows "conn_slots_ok g0 g'"
proof (rule serve_step_cases [OF assms(2)])
  fix pc a out
  assume i: "i < length (g_serves g)"
    and n: "serve_next res pick (g_now g) (length (g_conns g)) (g_serves g ! i) (g_a g) = Some (pc, a, out)"
    and a: "g_a g' = a" and s: "g_serves g' = (g_serves g)[i := pc]"
    and c: "g_conns g' = (case out of Started c \<Rightarrow>
       g_conns g @ [\<lparr>c_pc = CRunning, c_sys = agent_worker a c ps (g_now g), c_wake = None\<rparr>] | _ \<Rightarrow> g_conns g)"
  have held: "held_slots g' = held_slots g + (if holds_slot pc then 1 else 0) - (if holds_slot (g_serves g ! i) then 1 else 0)
      + (case out of Started c \<Rightarrow> 1 | _ \<Rightarrow> 0)"
    using filter_update [OF i, of holds_slot pc] s c by (simp add: held_slots_def split: served.split)
  have pos: "holds_slot (g_serves g ! i) \<Longrightarrow> 0 < held_slots g"
    using filter_positive [OF i, of holds_slot] unfolding held_slots_def by linarith
  note move = conn_slots_move [OF assms(1)]
  have keep: "conn_slots_ok g0 g'" if "held_slots g' = held_slots g" "a_connSlots a = a_connSlots (g_a g)"
    using that a by (intro move [of g' 0]) simp_all
  show "conn_slots_ok g0 g'"
    using n
  proof (cases rule: serve_next_cases)
    case (slot l b cap h)
    then show ?thesis using held a by (intro move [of g' 1]) (simp_all add: holds_slot_def)
  next
    case (free l b)
    then show ?thesis using held a by (intro move [of g' 1]) (simp_all add: holds_slot_def)
  next
    case (fail l b err)
    then show ?thesis using held pos a by (intro move [of g' "- 1"]) (auto simp: holds_slot_def)
  next
    case (refuse conn)
    then show ?thesis using held pos a by (intro move [of g' "- 1"]) (auto simp: holds_slot_def)
  qed (use held keep in \<open>simp_all add: holds_slot_def\<close>)
qed

lemma roster_conn:
  assumes "roster_ok g" and "conn_step i g = Some g'"
  shows "roster_ok g'"
proof -
  from assms(2) obtain pc a where i: "i < length (g_conns g)"
    and n: "conn_next i (c_sys (g_conns g ! i)) (c_pc (g_conns g ! i)) (g_a g) = Some (pc, a)"
    and g': "g' = g\<lparr>g_a := a, g_conns := (g_conns g)[i := (g_conns g ! i)\<lparr>c_pc := pc\<rparr>]\<rparr>"
    by (auto simp: conn_step_def split: if_splits option.splits)
  note u = filter_update [OF i, of counted "(g_conns g ! i)\<lparr>c_pc := pc\<rparr>"]
  have d: "distinct (a_conns a)" "\<And>k. k \<in> set (a_conns a) \<longleftrightarrow> k \<in> set (a_conns (g_a g)) \<and> (c_pc (g_conns g ! i) = CRunning \<longrightarrow> k \<noteq> i)"
    "pc \<noteq> CRunning" and wg: "a_wg a = a_wg (g_a g) + (if pc = CDeleted then 1 else 0) - (if counted (g_conns g ! i) then 1 else 0)"
    using n conjunct1 [OF assms(1) [unfolded roster_ok_def]]
    by (cases "c_pc (g_conns g ! i)"; auto simp: conn_next_def forget_delete_def forget_done_def distinct_removeAll split: if_splits)+
  have "k \<in> set (a_conns a) \<longleftrightarrow> k < length (g_conns g') \<and> c_pc (g_conns g' ! k) = CRunning" for k
    using d(2,3) g' assms(1) i by (cases "k = i") (simp_all add: roster_ok_def)
  moreover have "a_wg a = int (length (filter counted (g_conns g')))"
    using u wg d(3) assms(1) g' by (simp add: roster_ok_def)
  ultimately show ?thesis using d(1) g' by (simp add: roster_ok_def)
qed

lemma conn_slots_conn:
  assumes "conn_slots_ok g0 g" and "conn_step i g = Some g'"
  shows "conn_slots_ok g0 g'"
proof -
  from assms(2) obtain pc a where i: "i < length (g_conns g)"
    and n: "conn_next i (c_sys (g_conns g ! i)) (c_pc (g_conns g ! i)) (g_a g) = Some (pc, a)"
    and g': "g' = g\<lparr>g_a := a, g_conns := (g_conns g)[i := (g_conns g ! i)\<lparr>c_pc := pc\<rparr>]\<rparr>"
    by (auto simp: conn_step_def split: if_splits option.splits)
  have held: "held_slots g' = held_slots g + (if pc \<noteq> CGone then 1 else 0) - (if alive (g_conns g ! i) then 1 else 0)"
    using filter_update [OF i, of alive "(g_conns g ! i)\<lparr>c_pc := pc\<rparr>"] g' by (simp add: held_slots_def)
  have pos: "alive (g_conns g ! i) \<Longrightarrow> 0 < held_slots g"
    using filter_positive [OF i, of alive] unfolding held_slots_def by linarith
  show ?thesis
  proof (cases "pc = CGone")
    case True
    then have "c_pc (g_conns g ! i) = CForgotten" "a = releaseConn (g_a g)"
      using n by (simp_all add: conn_next_def split: cpc.splits if_splits)
    with True held pos g' show ?thesis by (intro conn_slots_move [OF assms(1), of g' "- 1"]) auto
  next
    case False
    then have "alive (g_conns g ! i)" "a_connSlots a = a_connSlots (g_a g)"
      using n by (auto simp: conn_next_def forget_delete_def forget_done_def split: cpc.splits if_splits)
    with False held g' show ?thesis by (intro conn_slots_move [OF assms(1), of g' 0]) simp_all
  qed
qed

definition books_ok :: "agent_sys \<Rightarrow> agent_sys \<Rightarrow> bool" where
  "books_ok g0 g \<longleftrightarrow> roster_ok g \<and> conn_slots_ok g0 g"

lemma books_fire:
  assumes "books_ok g0 g" and "agent_fire tx ev g = Some g'"
  shows "books_ok g0 g'"
proof -
  have keep: "same_books g g' \<Longrightarrow> books_ok g0 g'" using assms(1) same_books_keeps [of g g'] by (simp add: books_ok_def)
  show ?thesis
  proof (cases ev)
    case (AServeStep i res pick ps)
    with assms roster_serve conn_slots_serve show ?thesis by (auto simp: agent_fire_def books_ok_def)
  next
    case (AConn i)
    with assms roster_conn conn_slots_conn show ?thesis by (auto simp: agent_fire_def books_ok_def)
  qed (use assms(2) keep worker_books shut_books tick_books in \<open>auto simp: agent_fire_def same_books_def holds_slot_def\<close>)
qed

lemma books_start: "agent_start g \<Longrightarrow> books_ok g g"
  using New_idle by (auto simp: agent_start_def books_ok_def roster_ok_def conn_slots_ok_def idle_agent_def)

section \<open>Every connection is a worker\<close>

text \<open>A connection of the agent is in a state its worker can reach on its own, from the start that
  \<open>Handle\<close> gives it with the agent's configuration; it sees the agent's \<open>done\<close> channel and the same
  clock, has stopped once its goroutine is past \<open>Handle\<close>, and knows of a wake-up that the socket took.\<close>

definition conn_inv :: "go_texts \<Rightarrow> Agent \<Rightarrow> time \<Rightarrow> conn_go \<Rightarrow> bool" where
  "conn_inv tx a now c \<longleftrightarrow>
     (\<exists>conn ps t. new_conn a conn \<and> request_pool_ok ps \<and>
        reach (fire tx) (agent_worker (a\<lparr>a_done := False\<rparr>) conn ps t) (c_sys c)) \<and>
     w_done (s_w (c_sys c)) = Some (a_done a) \<and> s_now (c_sys c) = now \<and>
     (c_pc c \<noteq> CRunning \<longrightarrow> stopped (c_sys c)) \<and> (c_wake c = Some None \<longrightarrow> s_poked (c_sys c))"

definition conns_inv :: "go_texts \<Rightarrow> agent_sys \<Rightarrow> bool" where
  "conns_inv tx g \<longleftrightarrow> a_done (g_a g) = a_draining (g_a g) \<and>
     (\<forall>c \<in> set (g_conns g). conn_inv tx (g_a g) (g_now g) c) \<and> (\<forall>pc \<in> set (g_serves g). carries_new (g_a g) pc)"

lemma agent_worker_start: "new_conn a conn \<Longrightarrow> request_pool_ok ps \<Longrightarrow> worker_start (agent_worker b conn ps t)"
  unfolding worker_start_def agent_worker_def
  by (intro exI conjI) (auto simp: new_conn_def SetWriteTimeout_def conn_ok_def NewConn_def fresh_net_def log_of_def)

lemma new_conn_cong:
  assumes "a_timeouts a' = a_timeouts a"
  shows "new_conn a' = new_conn a" and "carries_new a' = carries_new a"
proof -
  show n: "new_conn a' = new_conn a" using assms by (simp add: new_conn_def fun_eq_iff)
  show "carries_new a' = carries_new a" unfolding carries_new_def n by simp
qed

lemma agent_worker_cong:
  "a_timeouts a' = a_timeouts a \<Longrightarrow> a_maxInFlight a' = a_maxInFlight a \<Longrightarrow> a_done a' = a_done a \<Longrightarrow>
     agent_worker a' = agent_worker a"
  by (simp add: agent_worker_def fun_eq_iff)

lemma conn_inv_cong:
  assumes "a_timeouts a' = a_timeouts a" and "a_maxInFlight a' = a_maxInFlight a" and "a_done a' = a_done a"
  shows "conn_inv tx a' = conn_inv tx a"
proof -
  have "agent_worker (a'\<lparr>a_done := False\<rparr>) = agent_worker (a\<lparr>a_done := False\<rparr>)" "new_conn a' = new_conn a"
    using assms agent_worker_cong [of "a'\<lparr>a_done := False\<rparr>" "a\<lparr>a_done := False\<rparr>"] new_conn_cong [of a' a] by simp_all
  with assms(3) show ?thesis by (simp add: conn_inv_def fun_eq_iff)
qed

lemma conn_inv_exit:
  assumes "conn_inv tx a now c"
  shows "sys_ok (c_sys c)" and "stopped (c_sys c) \<Longrightarrow> conn_closed (c_sys c)"
proof -
  from assms obtain conn ps t where r: "new_conn a conn" "request_pool_ok ps"
    "reach (fire tx) (agent_worker (a\<lparr>a_done := False\<rparr>) conn ps t) (c_sys c)" by (auto simp: conn_inv_def)
  from wexit.reach_inv [OF agent_worker_start [OF r(1,2)] r(3)]
  show "sys_ok (c_sys c)" and "stopped (c_sys c) \<Longrightarrow> conn_closed (c_sys c)" by (simp_all add: exit_closed_def)
qed

text \<open>An event of the worker keeps the connection a worker; the rest is what the event does to the
  fields the agent looks at.\<close>

lemma conn_inv_fire:
  assumes "conn_inv tx a now c" and "fire tx ev (c_sys c) = Some s"
    and "a_timeouts a' = a_timeouts a" "a_maxInFlight a' = a_maxInFlight a"
    and "w_done (s_w s) = Some (a_done a')" "s_now s = now'" "stopped (c_sys c) \<longrightarrow> stopped s"
    and "w = Some None \<longrightarrow> s_poked s"
  shows "conn_inv tx a' now' (c\<lparr>c_sys := s, c_wake := w\<rparr>)"
proof -
  from assms(1) obtain conn ps t where r: "new_conn a conn" "request_pool_ok ps"
    "reach (fire tx) (agent_worker (a\<lparr>a_done := False\<rparr>) conn ps t) (c_sys c)" by (auto simp: conn_inv_def)
  from reach_step [OF r(3) assms(2)] r(1,2) have
    "new_conn a' conn" "reach (fire tx) (agent_worker (a'\<lparr>a_done := False\<rparr>) conn ps t) s"
    using assms(3,4) agent_worker_cong [of "a'\<lparr>a_done := False\<rparr>" "a\<lparr>a_done := False\<rparr>"]
    by (simp_all add: new_conn_def)
  with r(2) assms show ?thesis by (auto simp: conn_inv_def)
qed

lemma conn_inv_worker:
  assumes "conn_inv tx a now c" and "fire tx ev (c_sys c) = Some s" and "worker_event ev"
  shows "conn_inv tx a now (c\<lparr>c_sys := s\<rparr>)"
proof -
  have "steady (c_sys c) s" by (rule steady_worker [OF conn_inv_exit(1) [OF assms(1)] assms(2,3)])
  with assms(1) have "conn_inv tx a now (c\<lparr>c_sys := s, c_wake := c_wake c\<rparr>)"
    by (intro conn_inv_fire [OF assms(1,2)]) (auto simp: steady_def conn_inv_def)
  then show ?thesis by simp
qed

lemma conn_inv_tick:
  assumes "conn_inv tx a now c"
  shows "conn_inv tx a (now + int d) (c\<lparr>c_sys := (c_sys c)\<lparr>s_now := s_now (c_sys c) + int d\<rparr>\<rparr>)"
proof -
  let ?s = "(c_sys c)\<lparr>s_now := s_now (c_sys c) + int d\<rparr>"
  have "fire tx (EvTick d) (c_sys c) = Some ?s" by (simp add: fire_def)
  from conn_inv_fire [OF assms this, of a "now + int d" "c_wake c"] assms
  show ?thesis by (simp add: conn_inv_def stopped_def)
qed

lemma conn_inv_drain:
  assumes "conn_inv tx a now c" and "\<not> a_done a"
    and "a_timeouts a' = a_timeouts a" "a_maxInFlight a' = a_maxInFlight a" "a_done a'"
  shows "conn_inv tx a' now (done_closed c)"
proof -
  let ?s = "(c_sys c)\<lparr>s_w := (s_w (c_sys c))\<lparr>w_done := Some True\<rparr>\<rparr>"
  have "fire tx EvDrain (c_sys c) = Some ?s" using assms(1,2) by (simp add: fire_def conn_inv_def)
  from conn_inv_fire [OF assms(1) this assms(3,4), of now "c_wake c"] assms
  show ?thesis by (simp add: conn_inv_def stopped_def done_closed_def)
qed

lemma conn_inv_wake:
  assumes "conn_inv tx a now c" and "a_done a"
  shows "conn_inv tx a now (c\<lparr>c_sys := poke (c_sys c),
    c_wake := Some (fst (SetReadDeadline (Some (s_now (c_sys c))) (w_conn (s_w (c_sys c)))))\<rparr>)"
proof -
  have "fire tx EvPoke (c_sys c) = Some (poke (c_sys c))" using assms by (simp add: fire_def conn_inv_def shuttingDown_def)
  with assms show ?thesis by (intro conn_inv_fire [OF assms(1)]) (auto simp: conn_inv_def)
qed

lemma conn_inv_close:
  assumes "conn_inv tx a now c" and "a_done a"
  shows "conn_inv tx a now (c\<lparr>c_sys := (c_sys c)\<lparr>s_w := close (s_w (c_sys c))\<rparr>\<rparr>)"
proof -
  let ?s = "(c_sys c)\<lparr>s_w := close (s_w (c_sys c))\<rparr>"
  have "fire tx EvForceClose (c_sys c) = Some ?s" using assms by (simp add: fire_def conn_inv_def shuttingDown_def)
  from conn_inv_fire [OF assms(1) this, of a now "c_wake c"] assms
  show ?thesis by (simp add: conn_inv_def stopped_def)
qed

end
