(* ===== verification/Agent_Drain.thy ===== *)
theory Agent_Drain
  imports Agent_Invariants
begin

text \<open>
  The invariants of a drain: what each call of \<open>Shutdown\<close> has achieved at each of its positions,
  that only one call begins a drain, and that the listener of every \<open>Serve\<close> is one \<open>Shutdown\<close>
  closes. Together with those of \<open>Agent_Invariants\<close> they make the invariant of the agent.
\<close>

section \<open>What an event cannot undo\<close>

definition conn_later :: "conn_go \<Rightarrow> conn_go \<Rightarrow> bool" where
  "conn_later c c' \<longleftrightarrow> (c_pc c' = CRunning \<longrightarrow> c_pc c = CRunning) \<and> (counted c' \<longrightarrow> counted c) \<and>
     (c_wake c \<noteq> None \<longrightarrow> c_wake c' \<noteq> None) \<and> (conn_closed (c_sys c) \<longrightarrow> conn_closed (c_sys c'))"

definition conns_later :: "conn_go list \<Rightarrow> conn_go list \<Rightarrow> bool" where
  "conns_later cs cs' \<longleftrightarrow> length cs \<le> length cs' \<and> (\<forall>i < length cs. conn_later (cs ! i) (cs' ! i))"

definition later :: "agent_sys \<Rightarrow> agent_sys \<Rightarrow> bool" where
  "later g g' \<longleftrightarrow> (a_draining (g_a g) \<longrightarrow> a_draining (g_a g') \<and> length (g_conns g') = length (g_conns g)) \<and>
     (a_cancelled (g_a g) \<longrightarrow> a_cancelled (g_a g')) \<and> conns_later (g_conns g) (g_conns g')"

lemma conn_later_refl [simp]: "conn_later c c"
  by (simp add: conn_later_def)

lemma conns_later_refl [simp]: "conns_later cs cs"
  by (simp add: conns_later_def)

lemma conns_later_update: "conn_later (cs ! i) c \<Longrightarrow> conns_later cs (cs[i := c])"
  by (cases "i < length cs") (simp_all add: conns_later_def nth_list_update list_update_beyond)

lemma conns_later_map: "(\<And>c. conn_later c (f c)) \<Longrightarrow> conns_later cs (map f cs)"
  by (simp add: conns_later_def)

lemma conns_later_append [simp]: "conns_later cs (cs @ ds)"
  by (simp add: conns_later_def nth_append)

lemma later_serve:
  assumes "serve_step i res pick ps g = Some g'"
  shows "later g g' \<and> (a_draining (g_a g) \<longrightarrow> a_listeners (g_a g') = a_listeners (g_a g))"
proof (rule serve_step_cases [OF assms])
  fix pc a out
  assume n: "serve_next res pick (g_now g) (length (g_conns g)) (g_serves g ! i) (g_a g) = Some (pc, a, out)"
    and a: "g_a g' = a" and c: "g_conns g' = (case out of Started c \<Rightarrow>
       g_conns g @ [\<lparr>c_pc = CRunning, c_sys = agent_worker a c ps (g_now g), c_wake = None\<rparr>] | _ \<Rightarrow> g_conns g)"
  show ?thesis
    using n by (cases rule: serve_next_cases) (use a c in \<open>simp_all add: later_def\<close>)
qed

lemma later_worker:
  assumes "conns_inv tx g" and "worker_step tx i ev g = Some g'"
  shows "later g g'"
proof -
  from assms(2) obtain s where i: "i < length (g_conns g)" "worker_event ev"
    and s: "fire tx ev (c_sys (g_conns g ! i)) = Some s" and g': "g' = set_sys i s g"
    by (auto simp: worker_step_def split: if_splits option.splits)
  have "conn_inv tx (g_a g) (g_now g) (g_conns g ! i)" using assms(1) i(1) by (simp add: conns_inv_def)
  from steady_worker [OF conn_inv_exit(1) [OF this] s i(2)] g' show ?thesis
    by (auto simp: later_def set_sys_def steady_def conn_later_def intro: conns_later_update)
qed

lemma later_conn:
  assumes "conn_step i g = Some g'"
  shows "later g g' \<and> a_draining (g_a g') = a_draining (g_a g) \<and> a_listeners (g_a g') = a_listeners (g_a g)"
proof -
  from assms obtain pc a where n: "conn_next i (c_sys (g_conns g ! i)) (c_pc (g_conns g ! i)) (g_a g) = Some (pc, a)"
    and g': "g' = g\<lparr>g_a := a, g_conns := (g_conns g)[i := (g_conns g ! i)\<lparr>c_pc := pc\<rparr>]\<rparr>"
    by (auto simp: conn_step_def split: if_splits option.splits)
  from n have "conn_later (g_conns g ! i) ((g_conns g ! i)\<lparr>c_pc := pc\<rparr>)" "a_draining a = a_draining (g_a g)"
    "a_cancelled a = a_cancelled (g_a g)" "a_listeners a = a_listeners (g_a g)"
    by (auto simp: conn_next_def conn_later_def forget_delete_def forget_done_def split: cpc.splits if_splits)
  with g' show ?thesis by (simp add: later_def conns_later_update)
qed

lemma conn_later_done [simp]: "conn_later c (done_closed c)"
  by (simp add: conn_later_def done_closed_def conn_closed_def)

lemma later_wake: "later g (wake i g) \<and> g_a (wake i g) = g_a g \<and> g_shuts (wake i g) = g_shuts g"
  by (simp add: wake_def later_def Let_def conns_later_update conn_later_def)

lemma later_close: "later g (force_close i g) \<and> g_a (force_close i g) = g_a g \<and> g_shuts (force_close i g) = g_shuts g"
  by (simp add: force_close_def set_sys_def later_def Let_def conns_later_update conn_later_def conn_closed_def go_simps)

lemma later_tick: "later g (tick d g)"
  by (simp add: tick_def later_def conns_later_map conn_later_def conn_closed_def)

section \<open>The calls of Shutdown\<close>

text \<open>What holds at each position. A connection is running while its goroutine is in \<open>Handle\<close>: none
  escapes the snapshot, every one is woken before \<open>Shutdown\<close> waits, none is left when it returns nil,
  and those left when the grace period has expired are closed.\<close>

definition running :: "agent_sys \<Rightarrow> nat \<Rightarrow> bool" where
  "running g i \<longleftrightarrow> i < length (g_conns g) \<and> c_pc (g_conns g ! i) = CRunning"

definition woken_up :: "agent_sys \<Rightarrow> nat \<Rightarrow> bool" where
  "woken_up g i \<longleftrightarrow> c_wake (g_conns g ! i) \<noteq> None"

definition shut_ok :: "agent_sys \<Rightarrow> shpc \<Rightarrow> bool" where
  "shut_ok g pc =
     (case pc of
        ShEnter \<Rightarrow> True
      | ShListeners ls cs \<Rightarrow> a_draining (g_a g) \<and> (\<forall>i. running g i \<longrightarrow> i \<in> set cs)
      | ShWake cs \<Rightarrow> a_draining (g_a g) \<and> (\<forall>i. running g i \<longrightarrow> i \<in> set cs \<or> woken_up g i)
      | ShWait \<Rightarrow> a_draining (g_a g) \<and> (\<forall>i. running g i \<longrightarrow> woken_up g i)
      | ShCloseAll e \<Rightarrow> a_draining (g_a g) \<and> a_cancelled (g_a g) \<and> (\<forall>i. running g i \<longrightarrow> woken_up g i)
      | ShClosing e cs \<Rightarrow> a_draining (g_a g) \<and> a_cancelled (g_a g) \<and>
          (\<forall>i. running g i \<longrightarrow> woken_up g i \<and> (i \<in> set cs \<or> conn_closed (c_sys (g_conns g ! i))))
      | ShReturned first r \<Rightarrow> a_draining (g_a g) \<and>
          (first \<longrightarrow> a_cancelled (g_a g) \<and>
             (case r of
                None \<Rightarrow> (\<forall>c \<in> set (g_conns g). \<not> counted c)
              | Some e \<Rightarrow> (\<forall>i. running g i \<longrightarrow> woken_up g i \<and> conn_closed (c_sys (g_conns g ! i))))))"

lemma laterD:
  assumes "later g g'" and "a_draining (g_a g)"
  shows "a_draining (g_a g')" and "a_cancelled (g_a g) \<Longrightarrow> a_cancelled (g_a g')"
    and "running g' i \<Longrightarrow> running g i" and "running g' i \<Longrightarrow> woken_up g i \<Longrightarrow> woken_up g' i"
    and "running g' i \<Longrightarrow> conn_closed (c_sys (g_conns g ! i)) \<Longrightarrow> conn_closed (c_sys (g_conns g' ! i))"
    and "\<forall>c \<in> set (g_conns g). \<not> counted c \<Longrightarrow> \<forall>c \<in> set (g_conns g'). \<not> counted c"
proof -
  have l: "length (g_conns g') = length (g_conns g)" "\<forall>i < length (g_conns g). conn_later (g_conns g ! i) (g_conns g' ! i)"
    using assms by (simp_all add: later_def conns_later_def)
  show "a_draining (g_a g')" "a_cancelled (g_a g) \<Longrightarrow> a_cancelled (g_a g')" using assms by (simp_all add: later_def)
  show "running g' i \<Longrightarrow> running g i" "running g' i \<Longrightarrow> woken_up g i \<Longrightarrow> woken_up g' i"
    "running g' i \<Longrightarrow> conn_closed (c_sys (g_conns g ! i)) \<Longrightarrow> conn_closed (c_sys (g_conns g' ! i))"
    using l by (auto simp: running_def woken_up_def conn_later_def)
  show "\<forall>c \<in> set (g_conns g'). \<not> counted c" if "\<forall>c \<in> set (g_conns g). \<not> counted c"
  proof
    fix c
    assume "c \<in> set (g_conns g')"
    then obtain i where "i < length (g_conns g)" "c = g_conns g' ! i" using l(1) by (metis in_set_conv_nth)
    with l(2) that show "\<not> counted c" by (auto simp: conn_later_def dest: nth_mem)
  qed
qed

lemma shut_ok_later:
  assumes "shut_ok g pc" and "later g g'"
  shows "shut_ok g' pc"
proof (cases "pc = ShEnter")
  case True
  then show ?thesis by (simp add: shut_ok_def)
next
  case False
  then have "a_draining (g_a g)" using assms(1) by (cases pc) (simp_all add: shut_ok_def)
  note L = laterD [OF assms(2) this]
  show ?thesis
  proof (cases pc)
    case (ShListeners ls cs)
    with assms(1) L(1,3) show ?thesis unfolding shut_ok_def by fastforce
  next
    case (ShWake cs)
    with assms(1) have "\<forall>i. running g i \<longrightarrow> i \<in> set cs \<or> woken_up g i" by (simp add: shut_ok_def)
    then have "\<forall>i. running g' i \<longrightarrow> i \<in> set cs \<or> woken_up g' i" using L(3,4) by blast
    with ShWake L(1) show ?thesis by (simp add: shut_ok_def)
  next
    case (ShClosing e cs)
    with assms(1) have "a_cancelled (g_a g)" "\<forall>i. running g i \<longrightarrow> woken_up g i \<and> (i \<in> set cs \<or> conn_closed (c_sys (g_conns g ! i)))"
      by (simp_all add: shut_ok_def)
    then have "\<forall>i. running g' i \<longrightarrow> woken_up g' i \<and> (i \<in> set cs \<or> conn_closed (c_sys (g_conns g' ! i)))"
      using L(3-5) by blast
    with ShClosing L(1) L(2) [OF \<open>a_cancelled (g_a g)\<close>] show ?thesis by (simp add: shut_ok_def)
  next
    case (ShReturned first r)
    show ?thesis
    proof (cases "first \<and> r = None")
      case True
      with assms(1) ShReturned have "a_cancelled (g_a g)" "\<forall>c \<in> set (g_conns g). \<not> counted c" by (simp_all add: shut_ok_def)
      from L(2) [OF this(1)] L(6) [OF this(2)] L(1) True ShReturned show ?thesis by (simp add: shut_ok_def)
    next
      case no: False
      show ?thesis
      proof (cases r)
        case (Some e)
        with assms(1) ShReturned have "first \<Longrightarrow> a_cancelled (g_a g)"
          "first \<Longrightarrow> \<forall>i. running g i \<longrightarrow> woken_up g i \<and> conn_closed (c_sys (g_conns g ! i))" by (simp_all add: shut_ok_def)
        with L(3-5) have "first \<Longrightarrow> \<forall>i. running g' i \<longrightarrow> woken_up g' i \<and> conn_closed (c_sys (g_conns g' ! i))" by blast
        with L(1) L(2) [OF \<open>first \<Longrightarrow> a_cancelled (g_a g)\<close>] Some ShReturned show ?thesis by (simp add: shut_ok_def)
      qed (use no L(1) ShReturned in \<open>simp add: shut_ok_def\<close>)
    qed
  next
    case ShWait
    with assms(1) L(1,3,4) show ?thesis by (simp add: shut_ok_def)
  next
    case (ShCloseAll e)
    with assms(1) L(1-4) show ?thesis by (simp add: shut_ok_def)
  qed (use False in simp)
qed

definition began :: "shpc \<Rightarrow> bool" where
  "began pc = (case pc of ShEnter \<Rightarrow> False | ShReturned first r \<Rightarrow> first | _ \<Rightarrow> True)"

text \<open>One call of \<open>Shutdown\<close>: its position afterwards holds what it should, and the state is later.\<close>

lemma wake_here: "i < length (g_conns g) \<Longrightarrow> woken_up (wake i g) i"
  by (simp add: wake_def woken_up_def Let_def)

lemma close_here: "i < length (g_conns g) \<Longrightarrow> conn_closed (c_sys (g_conns (force_close i g) ! i))"
  by (simp add: force_close_def set_sys_def conn_closed_def Let_def go_simps)

lemma roster_running: "roster_ok g \<Longrightarrow> i \<in> set (a_conns (g_a g)) \<longleftrightarrow> running g i"
  by (simp add: roster_ok_def running_def)

lemma same_config_inv:
  assumes "conns_inv tx g" and "g_serves g' = g_serves g" and "g_now g' = g_now g"
    and "a_timeouts (g_a g') = a_timeouts (g_a g)" "a_maxInFlight (g_a g') = a_maxInFlight (g_a g)"
    and "a_done (g_a g') = a_draining (g_a g')" and "\<forall>c \<in> set (g_conns g'). conn_inv tx (g_a g') (g_now g) c"
  shows "conns_inv tx g'"
  using assms new_conn_cong(2) [OF assms(4)] by (simp add: conns_inv_def)

lemma conn_update_inv:
  assumes "conns_inv tx g" and "conn_inv tx (g_a g) (g_now g) c"
  shows "conns_inv tx (g\<lparr>g_conns := (g_conns g)[i := c]\<rparr>)"
  using assms set_update_subset_insert [of "g_conns g" i c] by (auto simp: conns_inv_def)

lemma conns_inv_wake:
  assumes "conns_inv tx g" and "a_draining (g_a g)"
  shows "conns_inv tx (wake i g)"
proof (cases "i < length (g_conns g)")
  case True
  then have "conn_inv tx (g_a g) (g_now g) (g_conns g ! i)" using assms(1) by (simp add: conns_inv_def)
  with conn_update_inv [OF assms(1) conn_inv_wake [OF this], of i] assms True show ?thesis
    by (simp add: wake_def conns_inv_def Let_def)
qed (use assms in \<open>simp add: wake_def\<close>)

lemma conns_inv_force_close:
  assumes "conns_inv tx g" and "a_draining (g_a g)"
  shows "conns_inv tx (force_close i g)"
proof (cases "i < length (g_conns g)")
  case True
  then have "conn_inv tx (g_a g) (g_now g) (g_conns g ! i)" using assms(1) by (simp add: conns_inv_def)
  with conn_update_inv [OF assms(1) conn_inv_close [OF this], of i] assms True show ?thesis
    by (simp add: force_close_def set_sys_def conns_inv_def Let_def)
qed (use assms in \<open>simp add: force_close_def\<close>)

lemma conns_inv_cancel:
  assumes "conns_inv tx g"
  shows "conns_inv tx (g\<lparr>g_a := (g_a g)\<lparr>a_cancelled := True\<rparr>\<rparr>)"
proof -
  have "conn_inv tx ((g_a g)\<lparr>a_cancelled := True\<rparr>) = conn_inv tx (g_a g)" by (rule conn_inv_cong) simp_all
  with assms show ?thesis by (intro same_config_inv [OF assms]) (simp_all add: conns_inv_def)
qed

lemma conns_inv_begin:
  assumes "conns_inv tx g" and "\<not> a_draining (g_a g)"
  shows "conns_inv tx (g\<lparr>g_a := (g_a g)\<lparr>a_draining := True, a_done := True, a_listeners := []\<rparr>,
    g_conns := map done_closed (g_conns g)\<rparr>)"
  using assms by (intro same_config_inv [OF assms(1)]) (auto simp: conns_inv_def intro: conn_inv_drain)

text \<open>A step keeps what was true of the call and of the connections. The wake-up and the close of a
  connection are events its worker allows because the drain began before them.\<close>

lemma shut_next_begin:
  assumes "shut_next order pick err ShEnter g = Some (pc', h)" and "conns_inv tx g" and "roster_ok g"
  shows "later g h \<and> shut_ok h pc' \<and> conns_inv tx h"
proof (cases "a_draining (g_a g)")
  case True
  with assms(1) have "h = g" "pc' = ShReturned False None" by (simp_all add: shut_next_def Shutdown_begin_def)
  with assms(2) True show ?thesis by (simp add: shut_ok_def later_def)
next
  case False
  let ?h = "g\<lparr>g_a := (g_a g)\<lparr>a_draining := True, a_done := True, a_listeners := []\<rparr>, g_conns := map done_closed (g_conns g)\<rparr>"
  from False assms(1) have h: "h = ?h" and pc': "pc' = ShListeners (a_listeners (g_a g)) order"
    and o: "set order = set (a_conns (g_a g))"
    by (auto simp: shut_next_def Shutdown_begin_def liveConns_def split: option.splits if_splits)
  have "running ?h i \<longleftrightarrow> running g i" for i by (auto simp: running_def done_closed_def)
  with o roster_running [OF assms(3)] have "shut_ok ?h pc'" by (simp add: shut_ok_def pc')
  moreover have "later g ?h" using False by (simp add: later_def conns_later_map)
  ultimately show ?thesis using conns_inv_begin [OF assms(2) False] h by simp
qed

lemma shut_next_ok:
  assumes "shut_next order pick err pc g = Some (pc', h)" and "conns_inv tx g" and "roster_ok g" and "shut_ok g pc"
  shows "later g h \<and> shut_ok h pc' \<and> conns_inv tx h"
proof (cases pc)
  case ShEnter
  with assms shut_next_begin show ?thesis by blast
next
  case (ShListeners ls cs)
  with assms show ?thesis
    by (cases ls) (auto simp: shut_next_def shut_ok_def later_def running_def conns_inv_def)
next
  case (ShWake cs)
  show ?thesis
  proof (cases cs)
    case (Cons i rest)
    with ShWake assms have h: "h = wake i g" "pc' = ShWake rest" and d: "a_draining (g_a g)"
      and w: "\<forall>k. running g k \<longrightarrow> k \<in> set (i # rest) \<or> woken_up g k"
      by (auto simp: shut_next_def shut_ok_def)
    note L = laterD [OF conjunct1 [OF later_wake [of g i]] d]
    have "k \<in> set rest \<or> woken_up (wake i g) k" if "running (wake i g) k" for k
      using w L(3,4) [OF that] wake_here [of i g] by (auto simp: running_def)
    with h L(1) conns_inv_wake [OF assms(2) d] later_wake show ?thesis by (simp add: shut_ok_def)
  qed (use ShWake assms in \<open>simp add: shut_next_def shut_ok_def later_def\<close>)
next
  case ShWait
  show ?thesis
  proof (cases pick)
    case True
    with ShWait assms have "a_wg (g_a g) = 0" "h = g\<lparr>g_a := (g_a g)\<lparr>a_cancelled := True\<rparr>\<rparr>" "pc' = ShReturned True None"
      by (auto simp: shut_next_def split: if_splits)
    moreover have "\<forall>c \<in> set (g_conns g). \<not> counted c"
      using assms(3) \<open>a_wg (g_a g) = 0\<close> by (simp add: roster_ok_def filter_empty_conv)
    ultimately show ?thesis
      using ShWait assms(2,4) conns_inv_cancel by (simp add: shut_ok_def later_def)
  next
    case False
    with ShWait assms conns_inv_cancel show ?thesis
      by (auto simp: shut_next_def shut_ok_def later_def running_def woken_up_def)
  qed
next
  case (ShCloseAll e)
  with assms roster_running [OF assms(3)] show ?thesis
    by (auto simp: shut_next_def shut_ok_def later_def liveConns_def split: option.splits if_splits)
next
  case (ShClosing e cs)
  show ?thesis
  proof (cases cs)
    case (Cons i rest)
    with ShClosing assms have h: "h = force_close i g" "pc' = ShClosing e rest" and d: "a_draining (g_a g)" "a_cancelled (g_a g)"
      and w: "\<forall>k. running g k \<longrightarrow> woken_up g k \<and> (k \<in> set (i # rest) \<or> conn_closed (c_sys (g_conns g ! k)))"
      by (auto simp: shut_next_def shut_ok_def)
    note L = laterD [OF conjunct1 [OF later_close [of g i]] d(1)]
    have "woken_up (force_close i g) k \<and> (k \<in> set rest \<or> conn_closed (c_sys (g_conns (force_close i g) ! k)))"
      if "running (force_close i g) k" for k
      using w L(3-5) [OF that] close_here [of i g] by (auto simp: running_def)
    with h L(1) L(2) [OF d(2)] conns_inv_force_close [OF assms(2) d(1)] later_close show ?thesis by (simp add: shut_ok_def)
  qed (use ShClosing assms in \<open>auto simp: shut_next_def shut_ok_def later_def\<close>)
next
  case (ShReturned first r)
  with assms(1) show ?thesis by (simp add: shut_next_def)
qed

section \<open>The other events\<close>

lemma conns_inv_serve:
  assumes "conns_inv tx g" and "serve_step i res pick ps g = Some g'"
  shows "conns_inv tx g'"
proof (rule serve_step_cases [OF assms(2)])
  fix pc a out
  assume i: "i < length (g_serves g)" and ps: "request_pool_ok ps"
    and n: "serve_next res pick (g_now g) (length (g_conns g)) (g_serves g ! i) (g_a g) = Some (pc, a, out)"
    and a: "g_a g' = a" and s: "g_serves g' = (g_serves g)[i := pc]" and now: "g_now g' = g_now g"
    and c: "g_conns g' = (case out of Started c \<Rightarrow>
       g_conns g @ [\<lparr>c_pc = CRunning, c_sys = agent_worker a c ps (g_now g), c_wake = None\<rparr>] | _ \<Rightarrow> g_conns g)"
  have held: "carries_new (g_a g) (g_serves g ! i)" using assms(1) i by (simp add: conns_inv_def)
  have same: "a_timeouts a = a_timeouts (g_a g)" "a_maxInFlight a = a_maxInFlight (g_a g)" "a_done a = a_done (g_a g)"
    "a_draining a = a_draining (g_a g)" and new: "carries_new (g_a g) pc"
    and start: "\<And>conn. out = Started conn \<Longrightarrow> new_conn (g_a g) conn \<and> \<not> a_draining (g_a g)"
    using n by (cases rule: serve_next_cases; use held in \<open>simp add: carries_new_def\<close>)+
  note cong = conn_inv_cong [OF same(1-3), of tx] new_conn_cong [OF same(1)]
  have "conn_inv tx a (g_now g) \<lparr>c_pc = CRunning, c_sys = agent_worker a conn ps (g_now g), c_wake = None\<rparr>"
    if "out = Started conn" for conn
  proof -
    have d: "\<not> a_done a" using start [OF that] assms(1) same by (simp add: conns_inv_def)
    then have "agent_worker (a\<lparr>a_done := False\<rparr>) = agent_worker a" by (intro agent_worker_cong) simp_all
    with start [OF that] ps cong(2) reach_start [of "fire tx" "agent_worker a conn ps (g_now g)"]
    have "new_conn a conn \<and> request_pool_ok ps \<and> reach (fire tx) (agent_worker (a\<lparr>a_done := False\<rparr>) conn ps (g_now g))
        (agent_worker a conn ps (g_now g))" by simp
    moreover have "w_done (s_w (agent_worker a conn ps (g_now g))) = Some (a_done a)" "s_now (agent_worker a conn ps (g_now g)) = g_now g"
      by (simp_all add: agent_worker_def Handle_def)
    ultimately show ?thesis unfolding conn_inv_def conn_go.simps by blast
  qed
  then have "\<forall>c \<in> set (g_conns g'). conn_inv tx a (g_now g) c"
    using assms(1) c cong(1) by (cases out) (auto simp: conns_inv_def)
  moreover have "\<forall>pc \<in> set (g_serves g'). carries_new (g_a g) pc"
    using assms(1) s new set_update_subset_insert [of "g_serves g" i pc] by (auto simp: conns_inv_def)
  ultimately show "conns_inv tx g'"
    using assms(1) a now same cong(3) by (simp add: conns_inv_def)
qed

lemma conns_inv_worker:
  assumes "conns_inv tx g" and "worker_step tx i ev g = Some g'"
  shows "conns_inv tx g'"
proof -
  from assms(2) obtain s where i: "i < length (g_conns g)" "worker_event ev"
    and s: "fire tx ev (c_sys (g_conns g ! i)) = Some s" and g': "g' = set_sys i s g"
    by (auto simp: worker_step_def split: if_splits option.splits)
  have "conn_inv tx (g_a g) (g_now g) (g_conns g ! i)" using assms(1) i(1) by (simp add: conns_inv_def)
  from conn_update_inv [OF assms(1) conn_inv_worker [OF this s i(2)]] g' show ?thesis by (simp add: set_sys_def)
qed

lemma conns_inv_conn:
  assumes "conns_inv tx g" and "conn_step i g = Some g'"
  shows "conns_inv tx g'"
proof -
  from assms(2) obtain pc a where i: "i < length (g_conns g)"
    and n: "conn_next i (c_sys (g_conns g ! i)) (c_pc (g_conns g ! i)) (g_a g) = Some (pc, a)"
    and g': "g' = g\<lparr>g_a := a, g_conns := (g_conns g)[i := (g_conns g ! i)\<lparr>c_pc := pc\<rparr>]\<rparr>"
    by (auto simp: conn_step_def split: if_splits option.splits)
  have old: "conn_inv tx (g_a g) (g_now g) (g_conns g ! i)" using assms(1) i by (simp add: conns_inv_def)
  have same: "a_timeouts a = a_timeouts (g_a g)" "a_maxInFlight a = a_maxInFlight (g_a g)" "a_done a = a_done (g_a g)"
    "a_draining a = a_draining (g_a g)" and st: "stopped (c_sys (g_conns g ! i))"
    using n old by (auto simp: conn_next_def forget_delete_def forget_done_def conn_inv_def split: cpc.splits if_splits)
  from old st have "conn_inv tx (g_a g) (g_now g) ((g_conns g ! i)\<lparr>c_pc := pc\<rparr>)" by (simp add: conn_inv_def)
  note upd = conn_update_inv [OF assms(1) this, of i]
  then have "\<forall>c \<in> set (g_conns g'). conn_inv tx a (g_now g) c"
    unfolding conn_inv_cong [OF same(1-3), of tx] using g' by (simp add: conns_inv_def)
  with same g' assms(1) show ?thesis by (intro same_config_inv [OF upd]) (simp_all add: conns_inv_def)
qed

lemma conns_inv_tick: "conns_inv tx g \<Longrightarrow> conns_inv tx (tick d g)"
  by (auto simp: conns_inv_def tick_def intro: conn_inv_tick)

text \<open>The listener of a running \<open>Serve\<close> is one the agent knows, one that has been closed, or one a
  call of \<open>Shutdown\<close> is about to close.\<close>

definition to_close :: "shpc \<Rightarrow> nat set" where
  "to_close pc = (case pc of ShListeners ls cs \<Rightarrow> set ls | _ \<Rightarrow> {})"

definition known_listeners :: "agent_sys \<Rightarrow> nat set" where
  "known_listeners g = set (a_listeners (g_a g)) \<union> set (g_closed g) \<union> (\<Union>pc \<in> set (g_shuts g). to_close pc)"

definition drains_ok :: "agent_sys \<Rightarrow> bool" where
  "drains_ok g \<longleftrightarrow> (\<forall>pc \<in> set (g_serves g). \<forall>l. listener_of pc = Some l \<longrightarrow> l \<in> known_listeners g) \<and>
     (a_draining (g_a g) \<longrightarrow> a_listeners (g_a g) = []) \<and>
     length (filter began (g_shuts g)) = (if a_draining (g_a g) then 1 else 0)"

lemma drains_ok_mono:
  assumes "drains_ok g" and "known_listeners g \<subseteq> known_listeners g'" and "g_serves g' = g_serves g"
    and "a_draining (g_a g') \<longrightarrow> a_listeners (g_a g') = []"
    and "length (filter began (g_shuts g')) = (if a_draining (g_a g') then 1 else 0)"
  shows "drains_ok g'"
  using assms by (auto simp: drains_ok_def)

lemma drains_ok_serve:
  assumes "drains_ok g" and "serve_step i res pick ps g = Some g'"
  shows "drains_ok g'"
proof (rule serve_step_cases [OF assms(2)])
  fix pc a out
  assume i: "i < length (g_serves g)"
    and n: "serve_next res pick (g_now g) (length (g_conns g)) (g_serves g ! i) (g_a g) = Some (pc, a, out)"
    and a: "g_a g' = a" and s: "g_serves g' = (g_serves g)[i := pc]" "g_shuts g' = g_shuts g" "g_closed g' = g_closed g"
  have known: "known_listeners g \<subseteq> known_listeners g'" and pc: "\<forall>l. listener_of pc = Some l \<longrightarrow>
      listener_of (g_serves g ! i) = Some l \<or> l \<in> set (a_listeners a)"
    and same: "a_draining a = a_draining (g_a g)" "a_draining a \<longrightarrow> a_listeners a = a_listeners (g_a g)"
    using n by (cases rule: serve_next_cases; use a s in \<open>auto simp: known_listeners_def listener_of_def\<close>)+
  have "listener_of (g_serves g ! i) = Some l \<longrightarrow> l \<in> known_listeners g" for l
    using assms(1) i by (auto simp: drains_ok_def)
  moreover have "set (a_listeners a) \<subseteq> known_listeners g'" using a by (auto simp: known_listeners_def)
  ultimately have "\<forall>l. listener_of pc = Some l \<longrightarrow> l \<in> known_listeners g'" using pc known by blast
  moreover have "\<forall>q \<in> set (g_serves g). \<forall>l. listener_of q = Some l \<longrightarrow> l \<in> known_listeners g'"
    using assms(1) known unfolding drains_ok_def by blast
  ultimately have "\<forall>q \<in> set (g_serves g'). \<forall>l. listener_of q = Some l \<longrightarrow> l \<in> known_listeners g'"
    using s(1) set_update_subset_insert [of "g_serves g" i pc] by (metis insert_iff subsetD)
  with assms(1) same a s show "drains_ok g'" by (simp add: drains_ok_def)
qed

lemma subset_parts:
  "A \<subseteq> A' \<union> P \<Longrightarrow> C \<subseteq> C' \<Longrightarrow> Q \<subseteq> P \<union> C' \<Longrightarrow> U \<subseteq> U' \<union> Q \<Longrightarrow> P \<subseteq> U' \<Longrightarrow> A \<union> C \<union> U \<subseteq> A' \<union> C' \<union> U'"
  by blast

lemma drains_ok_shut:
  assumes "drains_ok g" and "shut_ok g (g_shuts g ! j)" and "shut_step j order pick err g = Some g'"
  shows "drains_ok g'"
proof -
  from assms(3) obtain pc h where j: "j < length (g_shuts g)" and n: "shut_next order pick err (g_shuts g ! j) g = Some (pc, h)"
    and g': "g' = h\<lparr>g_shuts := (g_shuts h)[j := pc]\<rparr>"
    by (auto simp: shut_step_def split: if_splits option.splits)
  have keep: "g_serves h = g_serves g \<and> g_shuts h = g_shuts g"
    using n by (auto simp: shut_next_def Shutdown_begin_def wake_def force_close_def set_sys_def Let_def
        split: shpc.splits option.splits list.splits if_splits)
  have known: "set (a_listeners (g_a g)) \<subseteq> set (a_listeners (g_a h)) \<union> to_close pc" "set (g_closed g) \<subseteq> set (g_closed h)"
    "to_close (g_shuts g ! j) \<subseteq> to_close pc \<union> set (g_closed h)"
    using n by (auto simp: shut_next_def Shutdown_begin_def wake_def force_close_def set_sys_def Let_def to_close_def
        split: shpc.splits option.splits list.splits if_splits)
  have drain: "a_draining (g_a h) \<and> (a_listeners (g_a g) = [] \<longrightarrow> a_listeners (g_a h) = []) \<and>
      (\<not> a_draining (g_a g) \<longrightarrow> a_listeners (g_a h) = []) \<and>
      (if began pc then 1 else 0) - (if began (g_shuts g ! j) then 1 else 0) = (if a_draining (g_a g) then 0 else (1::int))"
    using n assms(2) by (auto simp: shut_next_def Shutdown_begin_def wake_def force_close_def set_sys_def Let_def began_def shut_ok_def
        split: shpc.splits option.splits list.splits if_splits)
  have old: "(\<Union>pc \<in> set (g_shuts g). to_close pc) \<subseteq> (\<Union>pc \<in> set ((g_shuts g)[j := pc]). to_close pc) \<union> to_close (g_shuts g ! j)"
  proof
    fix l
    assume "l \<in> (\<Union>pc \<in> set (g_shuts g). to_close pc)"
    then obtain k where k: "k < length (g_shuts g)" "l \<in> to_close (g_shuts g ! k)" by (auto simp: in_set_conv_nth)
    show "l \<in> (\<Union>pc \<in> set ((g_shuts g)[j := pc]). to_close pc) \<union> to_close (g_shuts g ! j)"
    proof (cases "k = j")
      case False
      with k have "g_shuts g ! k \<in> set ((g_shuts g)[j := pc])" by (metis length_list_update nth_list_update_neq nth_mem)
      with k(2) show ?thesis by blast
    qed (use k in simp)
  qed
  have "to_close pc \<subseteq> (\<Union>pc \<in> set ((g_shuts g)[j := pc]). to_close pc)"
    using set_update_memI [OF j, of pc] by blast
  from subset_parts [OF known old this] keep g' have "known_listeners g \<subseteq> known_listeners g'"
    by (simp add: known_listeners_def)
  moreover have "length (filter began (g_shuts g')) = (if a_draining (g_a g') then 1 else 0)"
    using filter_update [OF j, of began pc] assms(1) drain keep g' by (auto simp: drains_ok_def split: if_splits)
  ultimately show ?thesis
    using assms(1) drain keep g' by (intro drains_ok_mono [OF assms(1)]) (auto simp: drains_ok_def)
qed

section \<open>The invariant of the agent\<close>

definition agent_inv :: "go_texts \<Rightarrow> agent_sys \<Rightarrow> agent_sys \<Rightarrow> bool" where
  "agent_inv tx g0 g \<longleftrightarrow> books_ok g0 g \<and> conns_inv tx g \<and> (\<forall>pc \<in> set (g_shuts g). shut_ok g pc) \<and> drains_ok g"

lemma shuts_later:
  assumes "\<forall>pc \<in> set (g_shuts g). shut_ok g pc" and "later g g'" and "g_shuts g' = g_shuts g"
  shows "\<forall>pc \<in> set (g_shuts g'). shut_ok g' pc"
  using assms shut_ok_later by auto

lemma shut_ok_shuts [simp]: "shut_ok (g\<lparr>g_shuts := x\<rparr>) = shut_ok g" "conns_inv tx (g\<lparr>g_shuts := x\<rparr>) = conns_inv tx g"
  "later g0 (g\<lparr>g_shuts := x\<rparr>) = later g0 g"
  by (auto simp: shut_ok_def conns_inv_def later_def running_def woken_up_def fun_eq_iff split: shpc.split option.split)

lemma agent_inv_shut:
  assumes "agent_inv tx g0 g" and "shut_step j order pick err g = Some g'"
  shows "conns_inv tx g' \<and> (\<forall>pc \<in> set (g_shuts g'). shut_ok g' pc) \<and> drains_ok g'"
proof -
  from assms(2) obtain pc h where j: "j < length (g_shuts g)" and n: "shut_next order pick err (g_shuts g ! j) g = Some (pc, h)"
    and g': "g' = h\<lparr>g_shuts := (g_shuts h)[j := pc]\<rparr>"
    by (auto simp: shut_step_def split: if_splits option.splits)
  have ok: "\<forall>pc \<in> set (g_shuts g). shut_ok g pc" "roster_ok g" "conns_inv tx g" "shut_ok g (g_shuts g ! j)"
    using assms(1) j by (simp_all add: agent_inv_def books_ok_def)
  note next1 = shut_next_ok [OF n ok(3,2,4)]
  have "g_shuts h = g_shuts g"
    using n by (auto simp: shut_next_def Shutdown_begin_def wake_def force_close_def set_sys_def Let_def
        split: shpc.splits option.splits list.splits if_splits)
  then have "\<forall>pc \<in> set (g_shuts h). shut_ok h pc" using shuts_later [OF ok(1)] next1 by blast
  then have "\<forall>pc \<in> set (g_shuts g'). shut_ok g' pc"
    using next1 g' set_update_subset_insert [of "g_shuts h" j pc] by auto
  with next1 g' drains_ok_shut [OF _ ok(4) assms(2)] assms(1) show ?thesis by (simp add: agent_inv_def)
qed

lemma drains_ok_same:
  assumes "drains_ok g" and "g_serves g' = g_serves g" "g_shuts g' = g_shuts g" "g_closed g' = g_closed g"
    "a_draining (g_a g') = a_draining (g_a g)" "a_listeners (g_a g') = a_listeners (g_a g)"
  shows "drains_ok g'"
  using assms by (simp add: drains_ok_def known_listeners_def)

lemma agent_inv_fire:
  assumes "agent_inv tx g0 g" and "agent_fire tx ev g = Some g'"
  shows "agent_inv tx g0 g'"
proof -
  have b: "books_ok g0 g'" using books_fire assms by (auto simp: agent_inv_def)
  have ok: "conns_inv tx g" "\<forall>pc \<in> set (g_shuts g). shut_ok g pc" "drains_ok g" using assms(1) by (simp_all add: agent_inv_def)
  show ?thesis
  proof (cases ev)
    case (AServe l)
    with assms(2) have g': "g' = g\<lparr>g_serves := g_serves g @ [SEnter l]\<rparr>" by (simp add: agent_fire_def)
    then have "later g g'" by (simp add: later_def)
    with g' ok b shuts_later [OF ok(2)] show ?thesis
      by (simp add: agent_inv_def conns_inv_def carries_new_def drains_ok_def known_listeners_def listener_of_def)
  next
    case (AServeStep i res pick ps)
    then have s: "serve_step i res pick ps g = Some g'" using assms(2) by (simp add: agent_fire_def)
    have "g_shuts g' = g_shuts g" by (rule serve_step_cases [OF s]) simp
    with shuts_later [OF ok(2)] later_serve [OF s] conns_inv_serve [OF ok(1) s] drains_ok_serve [OF ok(3) s] b
    show ?thesis by (simp add: agent_inv_def)
  next
    case (AWorker i e)
    then have s: "worker_step tx i e g = Some g'" using assms(2) by (simp add: agent_fire_def)
    then have "g_shuts g' = g_shuts g" "g_serves g' = g_serves g" "g_closed g' = g_closed g" "g_a g' = g_a g"
      by (auto simp: worker_step_def set_sys_def split: if_splits option.splits)
    with shuts_later [OF ok(2) later_worker [OF ok(1) s]] conns_inv_worker [OF ok(1) s] drains_ok_same [OF ok(3), of g'] b
    show ?thesis by (simp add: agent_inv_def)
  next
    case (AConn i)
    then have s: "conn_step i g = Some g'" using assms(2) by (simp add: agent_fire_def)
    then have "g_shuts g' = g_shuts g" "g_serves g' = g_serves g" "g_closed g' = g_closed g"
      by (auto simp: conn_step_def split: if_splits option.splits)
    with shuts_later [OF ok(2)] later_conn [OF s] conns_inv_conn [OF ok(1) s] drains_ok_same [OF ok(3), of g'] b
    show ?thesis by (simp add: agent_inv_def)
  next
    case AShutdown
    with assms(2) have g': "g' = g\<lparr>g_shuts := g_shuts g @ [ShEnter]\<rparr>" by (simp add: agent_fire_def)
    have "shut_ok g ShEnter" by (simp add: shut_ok_def)
    with g' ok b show ?thesis by (simp add: agent_inv_def drains_ok_def known_listeners_def to_close_def began_def)
  next
    case (AShutStep j order pick err)
    with assms agent_inv_shut [OF assms(1)] b show ?thesis by (simp add: agent_fire_def agent_inv_def)
  next
    case (ATick d)
    then have g': "g' = tick d g" using assms(2) by (simp add: agent_fire_def)
    with shuts_later [OF ok(2) later_tick] conns_inv_tick [OF ok(1)] drains_ok_same [OF ok(3), of g'] b
    show ?thesis by (simp add: agent_inv_def tick_def)
  qed
qed

lemma agent_inv_start: "agent_start g \<Longrightarrow> agent_inv tx g g"
  using books_start [of g] New_idle
  by (auto simp: agent_start_def agent_inv_def conns_inv_def drains_ok_def idle_agent_def)

interpretation asys: event_invariant "agent_fire tx" agent_start "agent_inv tx" for tx
  by unfold_locales (rule agent_inv_start, assumption, rule agent_inv_fire)

end
