(* ===== verification/Worker_Properties.thy ===== *)
theory Worker_Properties
  imports Worker_Invariants "HOL-Library.Multiset"
begin

text \<open>
  The properties of one connection, for every interleaving of its goroutines, every behaviour of the
  peer and of the socket, and every handler; with concrete runs, evaluated in full, as their
  witnesses.
\<close>

section \<open>The end of a connection\<close>

text \<open>The phase after the read loop has left its loop: it waits for the handlers, says goodbye,
  closes, cancels. The weight counts the steps left.\<close>

definition ending :: "system \<Rightarrow> bool" where
  "ending s \<longleftrightarrow> exiting (s_read s) \<or> (\<exists>fo. s_read s = RDrain fo)"

definition internal :: "event \<Rightarrow> bool" where
  "internal e \<longleftrightarrow> (case e of EvRead src pick \<Rightarrow> True | EvHandler i req \<Rightarrow> True | _ \<Rightarrow> False)"

fun rsteps :: "rpc \<Rightarrow> nat" where
  "rsteps (RDrain fo) = 3"
| "rsteps (RClose r) = 2"
| "rsteps (RCancel r) = 1"
| "rsteps _ = 0"

fun hsteps :: "hpc \<Rightarrow> nat" where
  "hsteps (HStart f) = 7"
| "hsteps (HRun f r) = 6"
| "hsteps (HFailed e f ack r) = 5"
| "hsteps (HClose f ack r) = 4"
| "hsteps (HFinish f ack r) = 3"
| "hsteps HRelease = 2"
| "hsteps HLeave = 1"
| "hsteps HDone = 0"

definition steps_left :: "system \<Rightarrow> nat" where
  "steps_left s = rsteps (s_read s) + (\<Sum>h\<leftarrow>s_hs s. hsteps h)"

lemma ending_read:
  assumes "ending s" and "read_step tx src pick s = Some s'"
  shows "ending s' \<and> rsteps (s_read s') < rsteps (s_read s) \<and> s_hs s' = s_hs s"
  using assms
  by (auto simp: ending_def exiting_def read_step_def drained_def Let_def split: if_splits)

lemma handler_next_steps:
  "handler_next tx now req h w = Some (h', w') \<Longrightarrow> hsteps h' < hsteps h"
  by (cases h) (auto simp: handler_next_def split: prod.splits option.splits ack_error.splits)

lemma sum_update_less:
  "i < length hs \<Longrightarrow> g x < g (hs ! i) \<Longrightarrow> (\<Sum>h\<leftarrow>hs[i := x]. g h) < ((\<Sum>h\<leftarrow>hs. g h) :: nat)"
proof (induction hs arbitrary: i)
  case (Cons h hs)
  then show ?case by (cases i) auto
qed simp

lemma ending_handler:
  assumes "ending s" and "handler_step tx i req s = Some s'"
  shows "ending s' \<and> steps_left s' < steps_left s"
proof -
  obtain h w where i: "i < length (s_hs s)" and n: "handler_next tx (s_now s) req (s_hs s ! i) (s_w s) = Some (h, w)"
    and s': "s' = s\<lparr>s_w := w, s_hs := (s_hs s)[i := h]\<rparr>"
    by (rule handler_step_cases [OF assms(2)])
  with assms(1) sum_update_less [of i "s_hs s" hsteps h] handler_next_steps [OF n] show ?thesis
    by (simp add: ending_def steps_left_def)
qed

interpretation wend: draining_phase "fire tx" ending internal steps_left for tx
proof unfold_locales
  fix s e s'
  assume end1: "ending s" and f: "fire tx e s = Some s'"
  have work: "internal e \<Longrightarrow> ending s' \<and> steps_left s' < steps_left s"
    using end1 f ending_read [OF end1] ending_handler [OF end1]
    by (auto simp: internal_def fire_def steps_left_def split: event.splits)
  have rest: "\<not> internal e \<Longrightarrow> ending s' \<and> steps_left s' \<le> steps_left s"
    using end1 f
    by (auto simp: internal_def fire_def ending_def steps_left_def poke_def case_prod_beta split: event.splits if_splits)
  from work rest show "ending s'" by blast
  show "internal e \<Longrightarrow> steps_left s' < steps_left s" using work by blast
  show "\<not> internal e \<Longrightarrow> steps_left s' \<le> steps_left s" using rest by blast
qed

definition finished :: "system \<Rightarrow> bool" where
  "finished s \<longleftrightarrow> (\<exists>r. s_read s = RStopped r) \<and> (\<forall>h \<in> set (s_hs s). h = HDone)"

lemma live_zero: "(\<Sum>h\<leftarrow>hs. hlive h) = 0 \<Longrightarrow> h \<in> set hs \<Longrightarrow> h = HDone"
  by (metis in_set_conv_nth live_sum not_one_le_zero)

lemma live_none: "\<forall>h \<in> set hs. h = HDone \<Longrightarrow> (\<Sum>h\<leftarrow>hs. hlive h) = 0"
  by (induction hs) (simp_all add: hlive_def)

lemma live_count: "(\<Sum>h\<leftarrow>hs. hlive h) = int (length (filter (\<lambda>h. h \<noteq> HDone) hs))"
  by (induction hs) (simp_all add: hlive_def)

lemma handler_enabled:
  assumes "i < length (s_hs s)" and "s_hs s ! i \<noteq> HDone"
  shows "handler_step tx i req s \<noteq> None"
  using assms by (cases "s_hs s ! i") (auto simp: handler_step_def handler_next_def split: prod.splits)

lemma ending_progress:
  assumes "slots_account s0 s" and "ending s" and "\<not> finished s"
  shows "\<exists>e. internal e \<and> fire tx e s \<noteq> None"
proof (cases "\<forall>h \<in> set (s_hs s). h = HDone")
  case True
  then have "(\<Sum>h\<leftarrow>s_hs s. hlive h) = 0" by (rule live_none)
  then have "w_inflight (s_w s) = 0" using assms(1) by (simp add: slots_account_def)
  moreover have "\<nexists>r. s_read s = RStopped r" using True assms(3) by (simp add: finished_def)
  ultimately have "read_step tx src pick s \<noteq> None" for src pick
    using assms(2) by (auto simp: ending_def exiting_def read_step_def Let_def)
  then show ?thesis
    by (intro exI [of _ "EvRead \<lparr>rd_data = [], rd_end = EOF\<rparr> True"]) (simp add: internal_def fire_def)
next
  case False
  then obtain i where "i < length (s_hs s)" "s_hs s ! i \<noteq> HDone" by (metis in_set_conv_nth)
  with handler_enabled [of i s tx newRequest] show ?thesis
    by (intro exI [of _ "EvHandler i newRequest"]) (simp add: internal_def fire_def)
qed

section \<open>Sample runs\<close>

definition sample_texts :: go_texts where
  "sample_texts = \<lparr>tx_quote = (\<lambda>s. 34 # s @ [34]), tx_encode = (\<lambda>_. gostr ''encode''), tx_conn = (\<lambda>_. gostr ''write'')\<rparr>"

definition wire_of :: "byte \<Rightarrow> u64 \<Rightarrow> u64 \<Rightarrow> (gostring \<times> go_value) list \<Rightarrow> bytes" where
  "wire_of t sid fid items =
     snd (snd (Frame_Encode buffer_write
       (blank_frame\<lparr>f_Type := t, f_StreamID := sid, f_FrameID := fid,
          f_KV := fold (\<lambda>(k, v) kv. KV_Add k v kv) items NewKV\<rparr>) []))"

definition peer_hello :: bytes where
  "peer_hello = wire_of TypeHAProxyHello 0 0
     [(gostr ''supported-versions'', VString (gostr ''2.0'')), (gostr ''max-frame-size'', VUint32 16384),
      (gostr ''capabilities'', VString [])]"

definition peer_notify :: bytes where
  "peer_notify = wire_of TypeNotify 1 7 []"

definition peer_bye :: bytes where
  "peer_bye = wire_of TypeHAProxyDisconnect 0 0 []"

definition turn :: "bytes \<Rightarrow> event" where
  "turn b = EvRead \<lparr>rd_data = b, rd_end = ErrDeadlineExceeded\<rparr> True"

definition receives :: "bytes \<Rightarrow> event list" where
  "receives b = [turn [], turn [], turn [], turn [], turn b, turn []]"

definition dispatches :: "event list" where
  "dispatches = [turn [], turn [], turn []]"

definition sample_start :: "(nat \<Rightarrow> nat \<times> io_error option) \<Rightarrow> int \<Rightarrow> system" where
  "sample_start script maxInFlight =
     \<lparr>s_w = Handle (NewConn (fresh_net script))
        \<lparr>cfg_Timeouts = \<lparr>tm_Handshake = 10, tm_Idle = 0, tm_Write = 0\<rparr>, cfg_Done = Some False, cfg_MaxInFlight = maxInFlight\<rparr>
        \<lparr>picks = (\<lambda>_. Some 0), kvPool = [], kv_out = 0, messagePool = [], msg_out = 0,
         framePool = [], frame_out = 0, requestPool = [], req_out = 0\<rparr>,
      s_read = RTop, s_hs = [], s_now = 0, s_poked = False, s_notified = []\<rparr>"

text \<open>A handshake, a NOTIFY that takes the only slot, and its ACK written; then a drain that wakes
  the read loop; then the end of the connection.\<close>

definition run_served :: "event list" where
  "run_served = receives peer_hello @ receives peer_notify @ dispatches @ replicate 2 (EvHandler 0 newRequest)"

definition run_woken :: "event list" where
  "run_woken = [EvDrain, EvPoke, turn [], turn []]"

definition run_finish :: "event list" where
  "run_finish = replicate 3 (EvHandler 0 newRequest) @ [turn [], turn [], turn []]"

definition good_socket :: "nat \<Rightarrow> nat \<times> io_error option" where
  "good_socket i = (1000, None)"

definition runs_to :: "event list \<Rightarrow> system \<Rightarrow> (system \<Rightarrow> bool) \<Rightarrow> bool" where
  "runs_to evs s P \<longleftrightarrow> (case run_events (fire sample_texts) evs s of Some s' \<Rightarrow> P s' | None \<Rightarrow> False)"

lemma runs_toE:
  assumes "runs_to evs s P"
  obtains s' where "run_events (fire sample_texts) evs s = Some s'" and "reach (fire sample_texts) s s'" and "P s'"
proof -
  from assms obtain s' where s': "run_events (fire sample_texts) evs s = Some s'" "P s'"
    by (auto simp: runs_to_def split: option.splits)
  with reach_run [OF reach_start s'(1)] show ?thesis by (intro that)
qed

definition sample_done :: "system \<Rightarrow> bool" where
  "sample_done s \<longleftrightarrow> (case s_read s of RStopped r \<Rightarrow> r = None | _ \<Rightarrow> False) \<and>
     list_all (\<lambda>h. case h of HDone \<Rightarrow> True | _ \<Rightarrow> False) (s_hs s) \<and>
     types_of (w_conn (s_w s)) = [TypeAgentHello, TypeAgentAck, TypeAgentDisconnect]"

lemma sample_done_finished: "sample_done s \<Longrightarrow> finished s"
proof -
  have "(case h of HDone \<Rightarrow> True | _ \<Rightarrow> False) \<Longrightarrow> h = HDone" for h by (cases h) simp_all
  moreover have "(case p of RStopped r \<Rightarrow> r = None | _ \<Rightarrow> False) \<Longrightarrow> \<exists>r. p = RStopped r" for p by (cases p) simp_all
  ultimately show "sample_done s \<Longrightarrow> finished s" by (simp add: sample_done_def finished_def list_all_iff)
qed

lemma sample_worker_start: "worker_start (sample_start script n)"
  unfolding worker_start_def sample_start_def
  by (intro exI conjI) (auto simp: request_pool_ok_def frame_pool_ok_def msg_pool_ok_def kv_pool_ok_def
      conn_ok_def NewConn_def fresh_net_def log_of_def)

lemma sample_served:
  "runs_to run_served (sample_start good_socket 1)
     (\<lambda>s. types_of (w_conn (s_w s)) = [TypeAgentHello, TypeAgentAck] \<and> w_slots (s_w s) = Some (1, 1) \<and>
          map wire_ids (acks (w_conn (s_w s))) = [(1, 7)] \<and> s_notified s = [(1, 7)] \<and> w_maxFrameSize (s_w s) = 16384)"
  by code_simp

text \<open>The handler has released its slot and not called Done; the read loop has started another one.\<close>

lemma sample_overlap:
  "runs_to (run_served @ replicate 2 (EvHandler 0 newRequest) @ receives peer_notify @ dispatches) (sample_start good_socket 1)
     (\<lambda>s. w_slots (s_w s) = Some (1, 1) \<and> w_inflight (s_w s) = 2)"
  by code_simp

lemma sample_woken:
  "runs_to (run_served @ run_woken) (sample_start good_socket 1)
     (\<lambda>s. s_poked s \<and> (case s_read s of RRead f \<Rightarrow> True | _ \<Rightarrow> False))"
  by code_simp

lemma sample_ending:
  "runs_to (run_served @ run_woken @ [turn []]) (sample_start good_socket 1)
     (\<lambda>s. (case s_read s of RDrain fo \<Rightarrow> True | _ \<Rightarrow> False) \<and>
          runs_to run_finish s sample_done)"
  by code_simp

lemma sample_endE:
  obtains s s' where "reach (fire sample_texts) (sample_start good_socket 1) s" and "ending s"
    and "run_events (fire sample_texts) run_finish s = Some s'"
    and "reach (fire sample_texts) (sample_start good_socket 1) s'" and "sample_done s'"
proof (rule runs_toE [OF sample_ending])
  fix s
  assume r: "reach (fire sample_texts) (sample_start good_socket 1) s"
    and s: "(case s_read s of RDrain fo \<Rightarrow> True | _ \<Rightarrow> False) \<and> runs_to run_finish s sample_done"
  have e: "ending s" using s by (cases "s_read s") (simp_all add: ending_def)
  show thesis
  proof (rule runs_toE [OF conjunct2 [OF s]])
    fix s'
    assume s': "run_events (fire sample_texts) run_finish s = Some s'" "sample_done s'"
    show thesis by (rule that [OF r e s'(1) reach_run [OF r s'(1)] s'(2)])
  qed
qed

section \<open>Properties\<close>

text \<open>C27. Nothing follows the goodbye. In every reachable state, what the connection has been given to
  write is at most one AGENT-HELLO, then ACKs, then AGENT-DISCONNECTs: no ACK and no AGENT-HELLO
  comes after an AGENT-DISCONNECT, however the handlers and the read loop interleave. There are at
  most two AGENT-DISCONNECTs, and at most one until the read loop has ended.\<close>

theorem worker_goodbye_last:
  assumes "worker_start s0" and "reach (fire tx) s0 s"
  shows "\<exists>hs as ds. types_of (w_conn (s_w s)) = hs @ as @ ds \<and> (hs = [] \<or> hs = [TypeAgentHello]) \<and>
    set as \<subseteq> {TypeAgentAck} \<and> set ds \<subseteq> {TypeAgentDisconnect} \<and> length ds \<le> 2 \<and>
    (\<not> exiting (s_read s) \<longrightarrow> length ds \<le> 1) \<and> (ds \<noteq> [] \<longrightarrow> w_goodbyeSent (s_w s))"
proof -
  have "log_shape s" using wsys.reach_inv [OF assms] by (simp add: worker_inv_def)
  then show ?thesis
  proof (rule shapeE [OF log_shape_parts(1)])
    fix hs as ds
    assume *: "types_of (w_conn (s_w s)) = hs @ as @ ds" "hs = [] \<or> hs = [TypeAgentHello]" "set as \<subseteq> {TypeAgentAck}"
      "set ds \<subseteq> {TypeAgentDisconnect}" "\<not> w_goodbyeSent (s_w s) \<longrightarrow> ds = []"
      "length ds \<le> (if w_disconnectOnce (s_w s) then 1 else 0) + (if exiting (s_read s) then 1 else 0)"
    have "length ds \<le> 2" "\<not> exiting (s_read s) \<longrightarrow> length ds \<le> 1" using *(6) by (auto split: if_splits)
    with * show ?thesis by blast
  qed
qed

theorem worker_goodbye_last_witness:
  "\<exists>s hs as ds. reach (fire sample_texts) (sample_start good_socket 1) s \<and>
     types_of (w_conn (s_w s)) = [TypeAgentHello, TypeAgentAck, TypeAgentDisconnect] \<and>
     types_of (w_conn (s_w s)) = hs @ as @ ds \<and> set as \<subseteq> {TypeAgentAck} \<and> set ds \<subseteq> {TypeAgentDisconnect}"
proof (rule sample_endE)
  fix s
  assume r: "reach (fire sample_texts) (sample_start good_socket 1) s" and d: "sample_done s"
  from d have "types_of (w_conn (s_w s)) = [TypeAgentHello, TypeAgentAck, TypeAgentDisconnect]" by (simp add: sample_done_def)
  with worker_goodbye_last [OF sample_worker_start r] r show ?thesis by blast
qed

text \<open>The bound of two is met: the peer can be sent two AGENT-DISCONNECTs. A HAPROXY-DISCONNECT is answered without going
  through the once that every other goodbye takes, so when the ACK of a NOTIFY fails at the same
  time the handler reports it again. In the run below the socket takes three bytes of an ACK and
  fails; the read loop answers the HAPROXY-DISCONNECT, and the handler sends its own AGENT-DISCONNECT
  behind it. Both follow the three bytes of the ACK that was cut short.\<close>

lemma worker_two_goodbyes:
  "\<exists>evs s. run_events (fire sample_texts) evs
      (sample_start (\<lambda>i. if i = 4 then (3, Some (OtherError 1)) else (1000, None)) 0) = Some s \<and>
    map (\<lambda>(b, n). (wire_type b, n < length b)) (log_of (w_conn (s_w s))) =
      [(TypeAgentHello, False), (TypeAgentAck, True), (TypeAgentDisconnect, False), (TypeAgentDisconnect, False)]"
proof -
  have "runs_to (receives peer_hello @ receives peer_notify @ [turn [], turn [], EvHandler 0 newRequest, turn [], turn [], turn [],
        turn [], turn peer_bye, EvHandler 0 newRequest, turn [], EvHandler 0 newRequest])
      (sample_start (\<lambda>i. if i = 4 then (3, Some (OtherError 1)) else (1000, None)) 0)
      (\<lambda>s. map (\<lambda>(b, n). (wire_type b, n < length b)) (log_of (w_conn (s_w s))) =
        [(TypeAgentHello, False), (TypeAgentAck, True), (TypeAgentDisconnect, False), (TypeAgentDisconnect, False)])"
    by code_simp
  then show ?thesis
  proof (rule runs_toE)
    fix s
    assume "run_events (fire sample_texts) (receives peer_hello @ receives peer_notify @ [turn [], turn [], EvHandler 0 newRequest,
        turn [], turn [], turn [], turn [], turn peer_bye, EvHandler 0 newRequest, turn [], EvHandler 0 newRequest])
        (sample_start (\<lambda>i. if i = 4 then (3, Some (OtherError 1)) else (1000, None)) 0) = Some s"
      and "map (\<lambda>(b, n). (wire_type b, n < length b)) (log_of (w_conn (s_w s))) =
        [(TypeAgentHello, False), (TypeAgentAck, True), (TypeAgentDisconnect, False), (TypeAgentDisconnect, False)]"
    then show ?thesis by (intro exI conjI)
  qed
qed

text \<open>C28. Every ACK answers a NOTIFY, once. The identifiers of the ACKs written are, with
  multiplicity, among those of the NOTIFYs dispatched, so no ACK is invented, sent twice or sent
  with the identifiers of another stream.\<close>

theorem worker_acks_answer_notifies:
  assumes "worker_start s0" and "reach (fire tx) s0 s"
  shows "mset (map wire_ids (acks (w_conn (s_w s)))) \<subseteq># mset (s_notified s)"
proof -
  have inv: "ack_account s" using wsys.reach_inv [OF assms] by (simp add: worker_inv_def)
  show ?thesis
  proof (rule mset_subset_eqI)
    fix x
    have "0 \<le> (\<Sum>h\<leftarrow>s_hs s. owes x h)" by (rule sum_list_nonneg) (auto simp: owes_def)
    moreover have "int (count_list (map wire_ids (acks (w_conn (s_w s)))) x) + (\<Sum>h\<leftarrow>s_hs s. owes x h) \<le>
        int (count_list (s_notified s) x)"
      using inv unfolding ack_account_def by blast
    ultimately show "count (mset (map wire_ids (acks (w_conn (s_w s))))) x \<le> count (mset (s_notified s)) x"
      unfolding count_mset by linarith
  qed
qed

theorem worker_acks_answer_notifies_witness:
  "\<exists>s. reach (fire sample_texts) (sample_start good_socket 1) s \<and>
     mset (map wire_ids (acks (w_conn (s_w s)))) \<subseteq># mset (s_notified s) \<and> map wire_ids (acks (w_conn (s_w s))) = [(1, 7)]"
proof (rule runs_toE [OF sample_served])
  fix s
  assume r: "reach (fire sample_texts) (sample_start good_socket 1) s"
    and "types_of (w_conn (s_w s)) = [TypeAgentHello, TypeAgentAck] \<and> w_slots (s_w s) = Some (1, 1) \<and>
      map wire_ids (acks (w_conn (s_w s))) = [(1, 7)] \<and> s_notified s = [(1, 7)] \<and> w_maxFrameSize (s_w s) = 16384"
  with worker_acks_answer_notifies [OF sample_worker_start r] show ?thesis by (intro exI [of _ s]) simp
qed

text \<open>C33. No ACK is declared longer than the connection allows: the FRAME-LENGTH of every ACK written
  is at most the frame size negotiated for the connection (or the library's maximum before one is).\<close>

theorem worker_acks_within_limit:
  assumes "worker_start s0" and "reach (fire tx) s0 s" and "b \<in> set (acks (w_conn (s_w s)))"
  shows "wire_len b \<le> frameLimit (s_w s)"
proof -
  have "ack_account s" using wsys.reach_inv [OF assms(1,2)] by (simp add: worker_inv_def)
  then show ?thesis using assms(3) unfolding ack_account_def by blast
qed

theorem worker_acks_within_limit_witness:
  "\<exists>s b. reach (fire sample_texts) (sample_start good_socket 1) s \<and> b \<in> set (acks (w_conn (s_w s))) \<and>
     w_maxFrameSize (s_w s) = 16384 \<and> wire_len b \<le> frameLimit (s_w s)"
proof (rule runs_toE [OF sample_served])
  fix s
  assume r: "reach (fire sample_texts) (sample_start good_socket 1) s"
    and m: "types_of (w_conn (s_w s)) = [TypeAgentHello, TypeAgentAck] \<and> w_slots (s_w s) = Some (1, 1) \<and>
      map wire_ids (acks (w_conn (s_w s))) = [(1, 7)] \<and> s_notified s = [(1, 7)] \<and> w_maxFrameSize (s_w s) = 16384"
  from m obtain b where b: "b \<in> set (acks (w_conn (s_w s)))" by (cases "acks (w_conn (s_w s))") auto
  from worker_acks_within_limit [OF sample_worker_start r b] r m b show ?thesis by (intro exI [of _ s] exI [of _ b]) simp
qed

text \<open>C29. The in-flight limit holds. With a limit the slots taken are exactly those held by the handlers
  that have not released theirs, from their start until their ACK is out and their objects are back,
  and by the NOTIFY for which the read loop has taken a slot and not started the handler yet; they
  are never more than MaxInFlight. With or without a limit the WaitGroup counts the handlers that
  have not called Done, so waiting for it waits for all of them. A handler calls Done after it has
  released its slot, so for a moment the WaitGroup can count more handlers than there are slots.\<close>

theorem worker_in_flight_bounded:
  assumes "worker_start s0" and "reach (fire tx) s0 s"
  shows "w_inflight (s_w s) = int (length (filter (\<lambda>h. h \<noteq> HDone) (s_hs s))) \<and>
    (case w_slots (s_w s0) of
       None \<Rightarrow> w_slots (s_w s) = None
     | Some (cap, _) \<Rightarrow> w_slots (s_w s) = Some (cap, length (filter hholds (s_hs s)) + rholds (s_read s)) \<and>
         length (filter hholds (s_hs s)) + rholds (s_read s) \<le> cap)"
proof -
  have "slots_account s0 s" using wsys.reach_inv [OF assms] by (simp add: worker_inv_def)
  then show ?thesis by (auto simp: slots_account_def live_count split: option.splits)
qed

theorem worker_in_flight_bounded_witness:
  "\<exists>s. reach (fire sample_texts) (sample_start good_socket 1) s \<and> w_slots (s_w s) = Some (1, 1) \<and>
     length (filter hholds (s_hs s)) \<le> 1 \<and> length (filter (\<lambda>h. h \<noteq> HDone) (s_hs s)) = 2"
proof (rule runs_toE [OF sample_overlap])
  fix s
  assume r: "reach (fire sample_texts) (sample_start good_socket 1) s"
    and w: "w_slots (s_w s) = Some (1, 1) \<and> w_inflight (s_w s) = 2"
  have "w_slots (s_w (sample_start good_socket 1)) = Some (1, 0)" by (simp add: sample_start_def Handle_def)
  with worker_in_flight_bounded [OF sample_worker_start r] r w show ?thesis by auto
qed

text \<open>C32. Every frame, message and request taken from the pools is given back. In a reachable state the
  objects in use beyond those at the start are exactly the ones the read loop and the handlers
  hold; once the connection has ended and its handlers are gone there are none, and everything in
  the pools is clean.\<close>

theorem worker_pools_balanced:
  assumes "worker_start s0" and "reach (fire tx) s0 s" and "finished s"
  shows "request_pool_ok (w_pools (s_w s)) \<and> frame_out (w_pools (s_w s)) = frame_out (w_pools (s_w s0)) \<and>
    msg_out (w_pools (s_w s)) = msg_out (w_pools (s_w s0)) \<and> req_out (w_pools (s_w s)) = req_out (w_pools (s_w s0))"
proof -
  have inv: "pools_account s0 s" using wsys.reach_inv [OF assms(1,2)] by (simp add: worker_inv_def)
  have zero: "\<forall>h \<in> set hs. h = HDone \<Longrightarrow> (\<Sum>h\<leftarrow>hs. int (length (hframes h))) = 0 \<and> (\<Sum>h\<leftarrow>hs. msgs_in (hframes h)) = 0 \<and>
      (\<Sum>h\<leftarrow>hs. hreqs h) = 0" for hs
    by (induction hs) simp_all
  from assms(3) obtain r where "s_read s = RStopped r" and "\<forall>h \<in> set (s_hs s). h = HDone" by (auto simp: finished_def)
  with inv zero [of "s_hs s"] show ?thesis by (simp add: pools_account_def pools_add_def)
qed

theorem worker_pools_balanced_witness:
  "\<exists>s. reach (fire sample_texts) (sample_start good_socket 1) s \<and> finished s \<and> frame_out (w_pools (s_w s)) = 0 \<and>
     req_out (w_pools (s_w s)) = 0"
proof (rule sample_endE)
  fix s
  assume r: "reach (fire sample_texts) (sample_start good_socket 1) s" and "sample_done s"
  then have f: "finished s" by (intro sample_done_finished)
  have "frame_out (w_pools (s_w (sample_start good_socket 1))) = 0" "req_out (w_pools (s_w (sample_start good_socket 1))) = 0"
    by (simp_all add: sample_start_def Handle_def)
  with worker_pools_balanced [OF sample_worker_start r f] r f show ?thesis by (intro exI [of _ s]) simp
qed

text \<open>C30. A drain always reaches the read loop. Once the agent's wake-up has been accepted by the
  socket, a read loop that is reading has a read deadline that has passed, whichever way the wake-up
  and the arming of the deadline interleaved; the read returns instead of waiting for the peer.\<close>

theorem worker_drain_wakes:
  assumes "worker_start s0" and "reach (fire tx) s0 s" and "s_poked s" and "s_read s = RRead f"
  shows "shuttingDown (s_w s) \<and> (\<exists>t \<le> s_now s. nc_rdeadline (t_conn (w_conn (s_w s))) = Some t)"
proof -
  have "woken s" using wsys.reach_inv [OF assms(1,2)] by (simp add: worker_inv_def)
  with assms(3,4) show ?thesis by (auto simp: woken_def)
qed

theorem worker_drain_wakes_witness:
  "\<exists>s f t. reach (fire sample_texts) (sample_start good_socket 1) s \<and> s_read s = RRead f \<and>
     nc_rdeadline (t_conn (w_conn (s_w s))) = Some t \<and> t \<le> s_now s"
proof (rule runs_toE [OF sample_woken])
  fix s
  assume r: "reach (fire sample_texts) (sample_start good_socket 1) s"
    and p: "s_poked s \<and> (case s_read s of RRead f \<Rightarrow> True | _ \<Rightarrow> False)"
  from p obtain f where f: "s_read s = RRead f" by (cases "s_read s") simp_all
  from worker_drain_wakes [OF sample_worker_start r conjunct1 [OF p] f] obtain t where
    "t \<le> s_now s" "nc_rdeadline (t_conn (w_conn (s_w s))) = Some t" by blast
  with r f show ?thesis by (intro exI [of _ s] exI [of _ f] exI [of _ t]) simp
qed

text \<open>C31. A connection that has begun to end does end. From any reachable state in which the read loop
  is draining or has left its loop, every run has at most \<open>steps_left\<close> steps of the read loop and
  the handlers, and as long as they have not all finished one of them can step: nothing is
  dispatched any more and nothing deadlocks. A drain says goodbye only when no handler is left.\<close>

theorem worker_ending_terminates:
  assumes "worker_start s0" and "reach (fire tx) s0 s" and "ending s" and "run_events (fire tx) evs s = Some s'"
  shows "length (filter internal evs) \<le> steps_left s \<and> ending s' \<and>
    (finished s' \<or> (\<exists>e. internal e \<and> fire tx e s' \<noteq> None)) \<and>
    (\<forall>fo src pick. s_read s' = RDrain fo \<and> fire tx (EvRead src pick) s' \<noteq> None \<longrightarrow> (\<forall>h \<in> set (s_hs s'). h = HDone))"
proof -
  have inv: "slots_account s0 s'"
    using wsys.reach_inv [OF assms(1) reach_run [OF assms(2,4)]] by (simp add: worker_inv_def)
  note bound = wend.run_bounded [OF assms(3,4)]
  have last: "\<forall>h \<in> set (s_hs s'). h = HDone" if "s_read s' = RDrain fo" "fire tx (EvRead src pick) s' \<noteq> None" for fo src pick
    using that inv live_zero [of "s_hs s'"]
    by (auto simp: fire_def read_step_def Let_def slots_account_def split: if_splits)
  have "finished s' \<or> (\<exists>e. internal e \<and> fire tx e s' \<noteq> None)"
    using ending_progress [OF inv conjunct1 [OF bound]] by (cases "finished s'") simp_all
  with bound last show ?thesis by (intro conjI) (simp, simp, assumption, blast)
qed

theorem worker_ending_terminates_witness:
  "\<exists>s s'. reach (fire sample_texts) (sample_start good_socket 1) s \<and> ending s \<and>
     run_events (fire sample_texts) run_finish s = Some s' \<and> length (filter internal run_finish) \<le> steps_left s \<and> ending s'"
proof (rule sample_endE)
  fix s s'
  assume r: "reach (fire sample_texts) (sample_start good_socket 1) s" "ending s"
    "run_events (fire sample_texts) run_finish s = Some s'"
  from worker_ending_terminates [OF sample_worker_start r] r show ?thesis by (intro exI [of _ s] exI [of _ s']) simp
qed

end
