(* ===== verification/Agent_Properties.thy ===== *)
theory Agent_Properties
  imports Agent_Drain Worker_Properties
begin

text \<open>
  The properties of the agent, for every interleaving of its calls of \<open>Serve\<close> and \<open>Shutdown\<close> and of its
  connections, with concrete runs as witnesses.
\<close>

section \<open>Serve in a drain\<close>

definition serve_event :: "nat \<Rightarrow> agent_event \<Rightarrow> bool" where
  "serve_event i ev = (case ev of AServeStep k res pick ps \<Rightarrow> k = i | _ \<Rightarrow> False)"

fun serve_left :: "spc \<Rightarrow> nat" where
  "serve_left (SPause l b u) = 5"
| "serve_left (SAcquire l b) = 4"
| "serve_left (SSelect l b) = 4"
| "serve_left (SAccept l b) = 3"
| "serve_left (STrack l c) = 2"
| "serve_left (SReturned r) = 0"
| "serve_left _ = 1"

lemma serve_next_draining:
  assumes "serve_next res pick now c pc a = Some (pc', a', out)" and "a_draining a"
  shows "serve_left pc' < serve_left pc \<and> (\<forall>r. pc' = SReturned r \<longrightarrow> r = ErrShutdown) \<and> a_draining a'"
  using assms
  by (cases pc; cases res)
     (auto simp: serve_next_def addListener_def acquireConn_def acquireConn_select_def Agent.track_def isDraining_def Let_def
       split: if_splits option.splits)

lemma agent_fire_drain:
  assumes "agent_fire tx ev g = Some g'" and "a_draining (g_a g)"
  shows "a_draining (g_a g') \<and> length (g_serves g) \<le> length (g_serves g')"
    and "i < length (g_serves g) \<Longrightarrow> \<not> serve_event i ev \<Longrightarrow> g_serves g' ! i = g_serves g ! i"
    and "i < length (g_serves g) \<Longrightarrow> serve_event i ev \<Longrightarrow> serve_left (g_serves g' ! i) < serve_left (g_serves g ! i) \<and>
      (\<forall>r. g_serves g' ! i = SReturned r \<longrightarrow> r = ErrShutdown)"
proof -
  have shut: "a_draining (g_a g') \<and> g_serves g' = g_serves g" if "shut_step j order pick err g = Some g'" for j order pick err
    using that assms(2)
    by (auto simp: shut_step_def shut_next_def Shutdown_begin_def wake_def force_close_def set_sys_def Let_def
        split: shpc.splits option.splits list.splits if_splits)
  have conn: "a_draining (g_a g') \<and> g_serves g' = g_serves g" if "conn_step j g = Some g'" for j
    using that later_conn [OF that] assms(2) by (auto simp: conn_step_def split: if_splits option.splits)
  have work: "a_draining (g_a g') \<and> g_serves g' = g_serves g" if "worker_step tx j e g = Some g'" for j e
    using that assms(2) by (auto simp: worker_step_def set_sys_def split: if_splits option.splits)
  have serve: "a_draining (g_a g') \<and> (\<exists>pc. g_serves g' = (g_serves g)[k := pc] \<and> serve_left pc < serve_left (g_serves g ! k) \<and>
      (\<forall>r. pc = SReturned r \<longrightarrow> r = ErrShutdown))" if "serve_step k res pick ps g = Some g'" for k res pick ps
    by (rule serve_step_cases [OF that]) (use serve_next_draining [OF _ assms(2)] in blast)
  show "a_draining (g_a g') \<and> length (g_serves g) \<le> length (g_serves g')"
    using assms shut conn work serve by (cases ev) (fastforce simp: agent_fire_def tick_def)+
  show "g_serves g' ! i = g_serves g ! i" if "i < length (g_serves g)" "\<not> serve_event i ev"
    using assms(1) that shut conn work serve
    by (cases ev) (fastforce simp: agent_fire_def tick_def serve_event_def nth_append)+
  show "serve_left (g_serves g' ! i) < serve_left (g_serves g ! i) \<and> (\<forall>r. g_serves g' ! i = SReturned r \<longrightarrow> r = ErrShutdown)"
    if "i < length (g_serves g)" "serve_event i ev"
    using assms(1) that serve by (cases ev) (fastforce simp: agent_fire_def serve_event_def)+
qed

interpretation send: draining_phase "agent_fire tx"
  "\<lambda>g. a_draining (g_a g) \<and> i < length (g_serves g) \<and> (\<forall>r. g_serves g ! i = SReturned r \<longrightarrow> r \<in> insert ErrShutdown R)"
  "serve_event i" "\<lambda>g. serve_left (g_serves g ! i)" for tx i R
proof unfold_locales
  fix s e s'
  assume p: "a_draining (g_a s) \<and> i < length (g_serves s) \<and> (\<forall>r. g_serves s ! i = SReturned r \<longrightarrow> r \<in> insert ErrShutdown R)"
    and f: "agent_fire tx e s = Some s'"
  then have d: "a_draining (g_a s)" and i: "i < length (g_serves s)" by simp_all
  note drain = agent_fire_drain(1) [OF f d] agent_fire_drain(2,3) [OF f d i]
  show "a_draining (g_a s') \<and> i < length (g_serves s') \<and> (\<forall>r. g_serves s' ! i = SReturned r \<longrightarrow> r \<in> insert ErrShutdown R)"
    using p drain by (cases "serve_event i e") auto
  show "serve_event i e \<Longrightarrow> serve_left (g_serves s' ! i) < serve_left (g_serves s ! i)" using drain(3) by simp
  show "\<not> serve_event i e \<Longrightarrow> serve_left (g_serves s' ! i) \<le> serve_left (g_serves s ! i)" using drain(2) by simp
qed

lemma serve_left_bound: "serve_left pc \<le> 5"
  by (cases pc) simp_all

text \<open>A \<open>Serve\<close> waits for a slot only when there are slots.\<close>

definition select_ok :: "agent_sys \<Rightarrow> bool" where
  "select_ok g \<longleftrightarrow> (a_connSlots (g_a g) = None \<longrightarrow> (\<forall>l b. SSelect l b \<notin> set (g_serves g)))"

lemma slots_kind:
  assumes "serve_next res pick now c pc a = Some (pc', a', out)"
  shows "(a_connSlots a' = None) = (a_connSlots a = None) \<and> (\<forall>l b. pc' = SSelect l b \<longrightarrow> a_connSlots a \<noteq> None)"
  using assms
  by (cases pc; cases res)
     (auto simp: serve_next_def addListener_def acquireConn_def acquireConn_select_def Agent.track_def Let_def
       split: if_splits option.splits)

interpretation ssel: event_invariant "agent_fire tx" agent_start "\<lambda>g0. select_ok" for tx
proof unfold_locales
  fix g
  assume "agent_start g"
  then show "select_ok g" by (auto simp: agent_start_def select_ok_def)
next
  fix g0 g e g'
  assume s: "select_ok g" and f: "agent_fire tx e g = Some g'"
  have keep: "select_ok g'" if "g_serves g' = g_serves g" "a_connSlots (g_a g') = None \<longrightarrow> a_connSlots (g_a g) = None"
    using s that by (auto simp: select_ok_def)
  show "select_ok g'"
  proof (cases e)
    case (AServeStep i res pick ps)
    then have st: "serve_step i res pick ps g = Some g'" using f by (simp add: agent_fire_def)
    show ?thesis
    proof (rule serve_step_cases [OF st])
      fix pc a out
      assume n: "serve_next res pick (g_now g) (length (g_conns g)) (g_serves g ! i) (g_a g) = Some (pc, a, out)"
        and a: "g_a g' = a" and sv: "g_serves g' = (g_serves g)[i := pc]"
      show "select_ok g'"
        using slots_kind [OF n] s a sv set_update_subset_insert [of "g_serves g" i pc]
        unfolding select_ok_def by (metis insert_iff subsetD)
    qed
  next
    case (AConn i)
    then have "conn_step i g = Some g'" using f by (simp add: agent_fire_def)
    then show ?thesis
      by (intro keep) (auto simp: conn_step_def conn_next_def forget_delete_def forget_done_def split: if_splits option.splits cpc.splits)
  next
    case (AShutStep j order pick err)
    then have "shut_step j order pick err g = Some g'" using f by (simp add: agent_fire_def)
    then show ?thesis
      by (intro keep)
         (auto simp: shut_step_def shut_next_def Shutdown_begin_def wake_def force_close_def set_sys_def Let_def
           split: shpc.splits option.splits list.splits if_splits)
  qed (use f s in \<open>auto simp: agent_fire_def select_ok_def worker_step_def set_sys_def tick_def split: if_splits option.splits\<close>)
qed

lemma serve_enabled:
  assumes "a_done (g_a g)" and "i < length (g_serves g)" and "\<nexists>r. g_serves g ! i = SReturned r" and "request_pool_ok ps"
    and "select_ok g"
  shows "agent_fire tx (AServeStep i res pick ps) g \<noteq> None"
proof -
  have "acquireConn_select pick (g_a g) \<noteq> None" if "a_connSlots (g_a g) \<noteq> None"
    using that agate.drain_wakes assms(1) by fastforce
  then have "serve_next res pick (g_now g) (length (g_conns g)) (g_serves g ! i) (g_a g) \<noteq> None"
    using assms(1-3,5) nth_mem [OF assms(2)] unfolding select_ok_def
    by (cases "g_serves g ! i"; cases res) (auto simp: serve_next_def pause_def Let_def split: prod.splits option.splits)
  with assms(2,4) show ?thesis by (auto simp: agent_fire_def serve_step_def Let_def)
qed

section \<open>After the drain has begun\<close>

lemma drain_keeps_conns:
  assumes "agent_fire tx ev g = Some g'" and "a_draining (g_a g)"
  shows "length (g_conns g') = length (g_conns g)"
proof (cases ev)
  case (AServeStep i res pick ps)
  with assms later_serve [of i res pick ps g g'] show ?thesis by (simp add: agent_fire_def later_def)
next
  case (AShutStep j order pick err)
  with assms show ?thesis
    by (auto simp: agent_fire_def shut_step_def shut_next_def Shutdown_begin_def wake_def force_close_def set_sys_def Let_def
        split: shpc.splits option.splits list.splits if_splits)
qed (use assms in \<open>auto simp: agent_fire_def worker_step_def conn_step_def set_sys_def tick_def split: if_splits option.splits\<close>)

lemma drain_reach:
  "reach (agent_fire tx) g g' \<Longrightarrow> a_draining (g_a g) \<Longrightarrow> a_draining (g_a g') \<and> length (g_conns g') = length (g_conns g)"
  by (induction rule: reach.induct) (use agent_fire_drain(1) drain_keeps_conns in \<open>auto\<close>)

lemma one_began:
  assumes "drains_ok g" and "pc \<in> set (g_shuts g)" "began pc" and "q \<in> set (g_shuts g)" "began q"
  shows "q = pc"
proof -
  have "length (filter began (g_shuts g)) \<le> 1" using assms(1) by (simp add: drains_ok_def)
  moreover have "pc \<in> set (filter began (g_shuts g))" "q \<in> set (filter began (g_shuts g))" using assms by simp_all
  ultimately show ?thesis by (cases "filter began (g_shuts g)") auto
qed

definition waiting :: "shpc \<Rightarrow> bool" where
  "waiting pc = (case pc of ShWait \<Rightarrow> True | ShCloseAll e \<Rightarrow> True | ShClosing e cs \<Rightarrow> True | _ \<Rightarrow> False)"

lemma waiting_listeners:
  assumes "drains_ok g" and "\<forall>q \<in> set (g_shuts g). shut_ok g q" and "pc \<in> set (g_shuts g)" "waiting pc"
  shows "known_listeners g = set (g_closed g)"
proof -
  have b: "began pc" "to_close pc = {}" using assms(4) by (auto simp: waiting_def began_def to_close_def split: shpc.splits)
  have "to_close q = {}" if "q \<in> set (g_shuts g)" for q
    using one_began [OF assms(1,3) b(1) that] b(2) by (cases q) (auto simp: to_close_def began_def)
  moreover have "a_draining (g_a g)" using assms(2-4) by (auto simp: shut_ok_def waiting_def split: shpc.splits)
  ultimately show ?thesis using assms(1) by (simp add: known_listeners_def drains_ok_def)
qed

lemma waiting_woken:
  assumes "shut_ok g pc" and "waiting pc" and "running g i"
  shows "woken_up g i"
  using assms by (auto simp: shut_ok_def waiting_def split: shpc.splits)

section \<open>The accept backoff\<close>









section \<open>Sample runs\<close>

definition empty_pools :: request_pools where
  "empty_pools = \<lparr>picks = (\<lambda>_. Some 0), kvPool = [], kv_out = 0, messagePool = [], msg_out = 0,
     framePool = [], frame_out = 0, requestPool = [], req_out = 0\<rparr>"

lemma empty_pools_ok: "request_pool_ok empty_pools"
  by (simp add: empty_pools_def request_pool_ok_def frame_pool_ok_def msg_pool_ok_def kv_pool_ok_def)

definition agent_new :: agent_sys where
  "agent_new = \<lparr>g_a = New [WithMaxConnections 1, WithWriteTimeout 0], g_serves = [], g_conns = [], g_shuts = [],
     g_closed = [], g_refused = [], g_now = 0\<rparr>"

lemma agent_new_start: "agent_start agent_new"
  unfolding agent_start_def agent_new_def
  by (intro exI [of _ "[WithMaxConnections 1, WithWriteTimeout 0]"] exI [of _ 0]) (auto simp: package_option_def)

definition serves :: agent_event where
  "serves = AServeStep 0 (Accepted good_socket) True empty_pools"

definition shuts :: "nat list \<Rightarrow> bool \<Rightarrow> agent_event" where
  "shuts order pick = AShutStep 0 order pick DeadlineExceeded"

text \<open>A listener is served and a connection accepted; the peer shakes hands, sends a NOTIFY and its
  handler starts. Then a drain begins, closes the listener and wakes the connection; or the
  peer hangs up while the handler runs.\<close>

definition run_accept :: "agent_event list" where
  "run_accept = [AServe 0, serves, serves, serves, serves, serves]"

definition run_busy :: "agent_event list" where
  "run_busy = run_accept @ map (AWorker 0) (receives peer_hello @ receives peer_notify @ dispatches @ [EvHandler 0 newRequest])"

definition run_drain :: "agent_event list" where
  "run_drain = [AShutdown, shuts [0] True, shuts [] True, shuts [] True, shuts [] True, shuts [] True]"

definition run_hangup :: "agent_event list" where
  "run_hangup = map (AWorker 0) (replicate 4 (turn []) @ replicate 3 (EvRead \<lparr>rd_data = [], rd_end = EOF\<rparr> True)) @
     [AConn 0, AConn 0, AConn 0, AShutdown, shuts [] True, shuts [] True, shuts [] True, shuts [] True, shuts [] True]"

definition agent_runs_to :: "agent_event list \<Rightarrow> (agent_sys \<Rightarrow> bool) \<Rightarrow> bool" where
  "agent_runs_to evs P \<longleftrightarrow> (case run_events (agent_fire sample_texts) evs agent_new of Some g \<Rightarrow> P g | None \<Rightarrow> False)"

lemma agent_runs_toE:
  assumes "agent_runs_to evs P"
  obtains g where "run_events (agent_fire sample_texts) evs agent_new = Some g"
    and "reach (agent_fire sample_texts) agent_new g" and "P g"
proof -
  from assms obtain g where g: "run_events (agent_fire sample_texts) evs agent_new = Some g" "P g"
    by (auto simp: agent_runs_to_def split: option.splits)
  with reach_run [OF reach_start g(1)] show ?thesis by (intro that)
qed

lemma sample_accept:
  "agent_runs_to run_accept (\<lambda>g. map c_pc (g_conns g) = [CRunning] \<and> a_connSlots (g_a g) = Some (1, 1))"
  by code_simp

lemma sample_drain:
  "agent_runs_to (run_busy @ run_drain)
     (\<lambda>g. (case g_shuts g of [ShWait] \<Rightarrow> True | _ \<Rightarrow> False) \<and> map c_pc (g_conns g) = [CRunning] \<and> g_closed g = [0] \<and>
        map (\<lambda>c. c_wake c = Some None) (g_conns g) = [True])"
  by code_simp

lemma sample_hangup:
  "agent_runs_to (run_busy @ run_hangup)
     (\<lambda>g. (case g_shuts g of [ShReturned first None] \<Rightarrow> first | _ \<Rightarrow> False) \<and>
        (case g_conns g of [c] \<Rightarrow> (case s_hs (c_sys c) of [HRun f r] \<Rightarrow> True | _ \<Rightarrow> False) | _ \<Rightarrow> False))"
  by code_simp

lemma sample_serve_end:
  "agent_runs_to (run_accept @ [AShutdown, shuts [0] True])
     (\<lambda>g. a_draining (g_a g) \<and> (case g_serves g of [SAcquire l b] \<Rightarrow> True | _ \<Rightarrow> False) \<and>
        (case run_events (agent_fire sample_texts) [serves] g of
           Some g' \<Rightarrow> (case g_serves g' of [SReturned r] \<Rightarrow> True | _ \<Rightarrow> False) | None \<Rightarrow> False))"
  by code_simp


section \<open>Properties\<close>

text \<open>C34. Every connection of the agent is a worker on its own. Whatever the agent does to a
  connection, its state is one the worker's own system reaches from a start with the agent's
  configuration, so that everything proved of a worker holds of it; in particular the agent never
  wakes or closes a connection before the drain has begun. It sees the drain exactly when the agent is
  draining, and has at most as many handlers that hold a slot (that have not yet finished their ACK and
  released their objects and their slot) as the agent's limit.\<close>

theorem agent_refines_worker:
  assumes "agent_start g0" and "reach (agent_fire tx) g0 g" and "c \<in> set (g_conns g)"
  shows "\<exists>s0. worker_start s0 \<and> reach (fire tx) s0 (c_sys c) \<and> w_timeouts (s_w s0) = a_timeouts (g_a g) \<and>
    w_slots (s_w s0) = (if a_maxInFlight (g_a g) > 0 then Some (nat (a_maxInFlight (g_a g)), 0) else None) \<and>
    t_writeTimeout (w_conn (s_w s0)) = tm_Write (a_timeouts (g_a g)) \<and>
    shuttingDown (s_w (c_sys c)) = a_draining (g_a g) \<and>
    (a_maxInFlight (g_a g) > 0 \<longrightarrow> int (length (filter hholds (s_hs (c_sys c)))) \<le> a_maxInFlight (g_a g))"
proof -
  have inv: "conns_inv tx g" using asys.reach_inv [OF assms(1,2)] by (simp add: agent_inv_def)
  with assms(3) have ci: "conn_inv tx (g_a g) (g_now g) c" and d: "a_done (g_a g) = a_draining (g_a g)"
    by (simp_all add: conns_inv_def)
  from ci obtain conn ps t where r: "new_conn (g_a g) conn" "request_pool_ok ps"
    "reach (fire tx) (agent_worker ((g_a g)\<lparr>a_done := False\<rparr>) conn ps t) (c_sys c)" by (auto simp: conn_inv_def)
  let ?s0 = "agent_worker ((g_a g)\<lparr>a_done := False\<rparr>) conn ps t"
  note start = agent_worker_start [OF r(1,2), of "(g_a g)\<lparr>a_done := False\<rparr>" t]
  have s0: "w_timeouts (s_w ?s0) = a_timeouts (g_a g)" "t_writeTimeout (w_conn (s_w ?s0)) = tm_Write (a_timeouts (g_a g))"
    "w_slots (s_w ?s0) = (if a_maxInFlight (g_a g) > 0 then Some (nat (a_maxInFlight (g_a g)), 0) else None)"
    using r(1) by (auto simp: agent_worker_def Handle_def new_conn_def SetWriteTimeout_def)
  have "slots_account ?s0 (c_sys c)" using wsys.reach_inv [OF start r(3)] by (simp add: worker_inv_def)
  then have "a_maxInFlight (g_a g) > 0 \<longrightarrow> int (length (filter hholds (s_hs (c_sys c)))) \<le> a_maxInFlight (g_a g)"
    using s0(3) by (auto simp: slots_account_def split: option.splits)
  moreover have "shuttingDown (s_w (c_sys c)) = a_draining (g_a g)" using ci d by (simp add: conn_inv_def shuttingDown_def)
  ultimately show ?thesis using start r(3) s0 by blast
qed

theorem agent_refines_worker_witness:
  "\<exists>g c s0. reach (agent_fire sample_texts) agent_new g \<and> g_conns g = [c] \<and> worker_start s0 \<and>
     reach (fire sample_texts) s0 (c_sys c)"
proof (rule agent_runs_toE [OF sample_accept])
  fix g
  assume r: "reach (agent_fire sample_texts) agent_new g"
    and g: "map c_pc (g_conns g) = [CRunning] \<and> a_connSlots (g_a g) = Some (1, 1)"
  then obtain c where c: "g_conns g = [c]" by auto
  then have "c \<in> set (g_conns g)" by simp
  from agent_refines_worker [OF agent_new_start r this] r c show ?thesis by blast
qed

text \<open>C35. The agent's books balance. The roster is exactly the connections whose worker is running, the
  WaitGroup counts the connections whose goroutine has not called Done, and with a limit on
  connections the slots taken are held by a connection alive or by a Serve that is accepting, never
  more than the limit.\<close>

theorem agent_connections_bounded:
  assumes "agent_start g0" and "reach (agent_fire tx) g0 g"
  shows "distinct (a_conns (g_a g)) \<and>
    (\<forall>i. i \<in> set (a_conns (g_a g)) \<longleftrightarrow> i < length (g_conns g) \<and> c_pc (g_conns g ! i) = CRunning) \<and>
    a_wg (g_a g) = int (length (filter (\<lambda>c. c_pc c = CRunning \<or> c_pc c = CDeleted) (g_conns g))) \<and>
    (a_maxConnections (g_a g0) > 0 \<longrightarrow>
       (\<exists>held. a_connSlots (g_a g) = Some (nat (a_maxConnections (g_a g0)), held) \<and>
          held = length (filter holds_slot (g_serves g)) + length (filter (\<lambda>c. c_pc c \<noteq> CGone) (g_conns g)) \<and>
          int held \<le> a_maxConnections (g_a g0)))"
proof -
  have roster: "roster_ok g" and slots: "conn_slots_ok g0 g"
    using asys.reach_inv [OF assms] by (simp_all add: agent_inv_def books_ok_def)
  have "\<exists>held. a_connSlots (g_a g) = Some (nat (a_maxConnections (g_a g0)), held) \<and>
      held = length (filter holds_slot (g_serves g)) + length (filter (\<lambda>c. c_pc c \<noteq> CGone) (g_conns g)) \<and>
      int held \<le> a_maxConnections (g_a g0)" if "a_maxConnections (g_a g0) > 0"
  proof -
    have "a_connSlots (g_a g0) = Some (nat (a_maxConnections (g_a g0)), 0)"
      using assms(1) New_idle that by (auto simp: agent_start_def)
    with slots that show ?thesis
      by (cases "a_connSlots (g_a g)") (auto simp: conn_slots_ok_def)
  qed
  with roster show ?thesis unfolding roster_ok_def by blast
qed

theorem agent_connections_bounded_witness:
  "\<exists>g. reach (agent_fire sample_texts) agent_new g \<and> map c_pc (g_conns g) = [CRunning] \<and> a_wg (g_a g) = 1 \<and>
     a_connSlots (g_a g) = Some (1, 1)"
proof (rule agent_runs_toE [OF sample_accept])
  fix g
  assume r: "reach (agent_fire sample_texts) agent_new g"
    and g: "map c_pc (g_conns g) = [CRunning] \<and> a_connSlots (g_a g) = Some (1, 1)"
  then obtain c where "g_conns g = [c]" "c_pc c = CRunning" by auto
  with agent_connections_bounded [OF agent_new_start r] r g show ?thesis by (intro exI [of _ g]) simp
qed

text \<open>C36. A drain reaches everyone. Once Shutdown waits for the connections, the listener of every Serve
  still running has been closed, and every connection whose worker is still running has been woken: when
  its socket took the wake-up and its read loop is in a read, the read's deadline has passed. No
  connection slips in between the snapshot of the roster and the wait.\<close>

theorem agent_drain_reaches_all:
  assumes "agent_start g0" and "reach (agent_fire tx) g0 g" and "pc \<in> set (g_shuts g)" and "waiting pc"
  shows "(\<forall>q \<in> set (g_serves g). \<forall>l. listener_of q = Some l \<longrightarrow> l \<in> set (g_closed g)) \<and>
    (\<forall>c \<in> set (g_conns g). c_pc c = CRunning \<longrightarrow>
       (\<exists>err. c_wake c = Some err \<and>
          (err = None \<longrightarrow> (\<forall>f. s_read (c_sys c) = RRead f \<longrightarrow>
             (\<exists>t \<le> g_now g. nc_rdeadline (t_conn (w_conn (s_w (c_sys c)))) = Some t)))))"
proof (intro conjI ballI impI)
  have inv: "conns_inv tx g" "\<forall>q \<in> set (g_shuts g). shut_ok g q" "drains_ok g"
    using asys.reach_inv [OF assms(1,2)] by (simp_all add: agent_inv_def)
  show "\<forall>l. listener_of q = Some l \<longrightarrow> l \<in> set (g_closed g)" if "q \<in> set (g_serves g)" for q
    using waiting_listeners [OF inv(3,2) assms(3,4)] inv(3) that by (simp add: drains_ok_def)
  fix c
  assume c: "c \<in> set (g_conns g)" "c_pc c = CRunning"
  then obtain i where i: "i < length (g_conns g)" "c = g_conns g ! i" by (metis in_set_conv_nth)
  have "woken_up g i" using waiting_woken [OF _ assms(4)] inv(2) assms(3) i c by (auto simp: running_def)
  then obtain err where err: "c_wake c = Some err" using i by (auto simp: woken_up_def)
  have ci: "conn_inv tx (g_a g) (g_now g) c" using inv(1) c by (simp add: conns_inv_def)
  then obtain conn ps t where r: "new_conn (g_a g) conn" "request_pool_ok ps"
    "reach (fire tx) (agent_worker ((g_a g)\<lparr>a_done := False\<rparr>) conn ps t) (c_sys c)" by (auto simp: conn_inv_def)
  have "woken (c_sys c)"
    using wsys.reach_inv [OF agent_worker_start [OF r(1,2)] r(3)] by (simp add: worker_inv_def)
  then have "err = None \<longrightarrow> (\<forall>f. s_read (c_sys c) = RRead f \<longrightarrow>
      (\<exists>t \<le> g_now g. nc_rdeadline (t_conn (w_conn (s_w (c_sys c)))) = Some t))"
    using ci err by (auto simp: conn_inv_def woken_def)
  with err show "\<exists>err. c_wake c = Some err \<and>
      (err = None \<longrightarrow> (\<forall>f. s_read (c_sys c) = RRead f \<longrightarrow>
         (\<exists>t \<le> g_now g. nc_rdeadline (t_conn (w_conn (s_w (c_sys c)))) = Some t)))" by blast
qed

theorem agent_drain_reaches_all_witness:
  "\<exists>g c. reach (agent_fire sample_texts) agent_new g \<and> g_shuts g = [ShWait] \<and> g_conns g = [c] \<and> c_pc c = CRunning \<and>
     (\<exists>err. c_wake c = Some err)"
proof (rule agent_runs_toE [OF sample_drain])
  fix g
  assume r: "reach (agent_fire sample_texts) agent_new g"
    and g: "(case g_shuts g of [ShWait] \<Rightarrow> True | _ \<Rightarrow> False) \<and> map c_pc (g_conns g) = [CRunning] \<and> g_closed g = [0] \<and>
        map (\<lambda>c. c_wake c = Some None) (g_conns g) = [True]"
  then obtain c where c: "g_conns g = [c]" "c_pc c = CRunning" by auto
  have s: "g_shuts g = [ShWait]" using g by (simp split: list.splits shpc.splits)
  then have "ShWait \<in> set (g_shuts g)" "waiting ShWait" by (simp_all add: waiting_def)
  from agent_drain_reaches_all [OF agent_new_start r this] r c s show ?thesis
    by (intro exI [of _ g] exI [of _ c]) auto
qed

text \<open>C37. What a return of Shutdown means. The call that began the drain returns with the context
  cancelled and with every connection ever accepted closed. When it returns nil, every worker has
  stopped and the WaitGroup is at zero; when it returns the context's error, those still running have
  been closed. From then on no connection is added.\<close>

theorem agent_shutdown_complete:
  assumes "agent_start g0" and "reach (agent_fire tx) g0 g" and "ShReturned True r \<in> set (g_shuts g)"
  shows "a_draining (g_a g) \<and> a_cancelled (g_a g) \<and> (\<forall>c \<in> set (g_conns g). t_closed (w_conn (s_w (c_sys c)))) \<and>
    (r = None \<longrightarrow> a_wg (g_a g) = 0 \<and> a_conns (g_a g) = [] \<and>
       (\<forall>c \<in> set (g_conns g). \<exists>err. s_read (c_sys c) = RStopped err)) \<and>
    (reach (agent_fire tx) g g' \<longrightarrow> length (g_conns g') = length (g_conns g))"
proof -
  have inv: "conns_inv tx g" "shut_ok g (ShReturned True r)" "roster_ok g"
    using asys.reach_inv [OF assms(1,2)] assms(3) by (simp_all add: agent_inv_def books_ok_def)
  then have d: "a_draining (g_a g)" "a_cancelled (g_a g)" by (simp_all add: shut_ok_def)
  have conn: "conn_inv tx (g_a g) (g_now g) c" if "c \<in> set (g_conns g)" for c
    using inv(1) that by (simp add: conns_inv_def)
  have idle: "conn_closed (c_sys c) \<and> stopped (c_sys c)" if "c \<in> set (g_conns g)" "c_pc c \<noteq> CRunning" for c
    using conn [OF that(1)] that(2) conn_inv_exit(2) [OF conn [OF that(1)]] by (simp add: conn_inv_def)
  have left: "r = None \<Longrightarrow> \<forall>c \<in> set (g_conns g). c_pc c \<noteq> CRunning \<and> c_pc c \<noteq> CDeleted"
    "r \<noteq> None \<Longrightarrow> \<forall>i. running g i \<longrightarrow> conn_closed (c_sys (g_conns g ! i))"
    using inv(2) by (auto simp: shut_ok_def)
  have "conn_closed (c_sys c)" if c: "c \<in> set (g_conns g)" for c
  proof (cases "c_pc c = CRunning")
    case True
    with c left(1) have "r \<noteq> None" by auto
    from c obtain i where "i < length (g_conns g)" "c = g_conns g ! i" by (metis in_set_conv_nth)
    with left(2) [OF \<open>r \<noteq> None\<close>] True show ?thesis by (simp add: running_def)
  qed (use idle c in simp)
  moreover have "a_wg (g_a g) = 0 \<and> a_conns (g_a g) = [] \<and> (\<forall>c \<in> set (g_conns g). stopped (c_sys c))" if "r = None"
  proof -
    have "filter counted (g_conns g) = []" using left(1) [OF that] by (simp add: filter_empty_conv)
    moreover have "i \<notin> set (a_conns (g_a g))" for i using left(1) [OF that] inv(3) nth_mem [of i "g_conns g"] by (auto simp: roster_ok_def)
    then have "a_conns (g_a g) = []" by (cases "a_conns (g_a g)") auto
    ultimately show ?thesis using inv(3) left(1) [OF that] idle by (auto simp: roster_ok_def)
  qed
  moreover have "stopped s \<Longrightarrow> \<exists>err. s_read s = RStopped err" for s by (cases "s_read s") (simp_all add: stopped_def)
  ultimately show ?thesis using d drain_reach [of tx g g'] unfolding conn_closed_def by blast
qed

theorem agent_shutdown_complete_witness:
  "\<exists>g. reach (agent_fire sample_texts) agent_new g \<and> g_shuts g = [ShReturned True None] \<and> a_wg (g_a g) = 0 \<and>
     (\<forall>c \<in> set (g_conns g). t_closed (w_conn (s_w (c_sys c))))"
proof (rule agent_runs_toE [OF sample_hangup])
  fix g
  assume r: "reach (agent_fire sample_texts) agent_new g"
    and g: "(case g_shuts g of [ShReturned first None] \<Rightarrow> first | _ \<Rightarrow> False) \<and>
        (case g_conns g of [c] \<Rightarrow> (case s_hs (c_sys c) of [HRun f r] \<Rightarrow> True | _ \<Rightarrow> False) | _ \<Rightarrow> False)"
  then have s: "g_shuts g = [ShReturned True None]" by (simp split: list.splits shpc.splits option.splits)
  then have "ShReturned True None \<in> set (g_shuts g)" by simp
  from agent_shutdown_complete [OF agent_new_start r this] r s show ?thesis by (intro exI [of _ g]) simp
qed

text \<open>A nil return does not mean that no handler runs. In the run below the peer hangs up while a
  handler is working: its worker stops without waiting for the handler, and Shutdown returns nil with the
  handler still in its call.\<close>

lemma agent_nil_leaves_handler:
  "\<exists>evs g c f req. run_events (agent_fire sample_texts) evs agent_new = Some g \<and> g_shuts g = [ShReturned True None] \<and>
     g_conns g = [c] \<and> s_hs (c_sys c) = [HRun f req]"
proof (rule agent_runs_toE [OF sample_hangup])
  fix g
  assume e: "run_events (agent_fire sample_texts) (run_busy @ run_hangup) agent_new = Some g"
    and g: "(case g_shuts g of [ShReturned first None] \<Rightarrow> first | _ \<Rightarrow> False) \<and>
        (case g_conns g of [c] \<Rightarrow> (case s_hs (c_sys c) of [HRun f r] \<Rightarrow> True | _ \<Rightarrow> False) | _ \<Rightarrow> False)"
  then obtain c f req where "g_conns g = [c]" "s_hs (c_sys c) = [HRun f req]"
    by (auto split: list.splits hpc.splits)
  moreover have "g_shuts g = [ShReturned True None]" using g by (simp split: list.splits shpc.splits option.splits)
  ultimately show ?thesis using e by (intro exI conjI)
qed

text \<open>C38. Serve ends once a drain has begun. From any reachable state in which the agent is draining, a
  call of Serve takes at most five more steps, and if it has not returned already it returns
  ErrShutdown. It is never blocked by the agent, however the slots and the backoff timer stand: the next
  step is enabled for whatever Accept returns. Accept itself returns once the listener is closed, and
  Shutdown closes every listener in use (the property on what a drain reaches).\<close>

theorem agent_serve_returns:
  assumes "agent_start g0" and "reach (agent_fire tx) g0 g" and "a_draining (g_a g)" and "i < length (g_serves g)"
    and "run_events (agent_fire tx) evs g = Some g'"
  shows "length (filter (serve_event i) evs) \<le> 5 \<and>
    (\<forall>r. g_serves g' ! i = SReturned r \<longrightarrow> r = ErrShutdown \<or> g_serves g ! i = SReturned r) \<and>
    ((\<exists>r. g_serves g' ! i = SReturned r) \<or>
     (\<forall>res pick ps. request_pool_ok ps \<longrightarrow> agent_fire tx (AServeStep i res pick ps) g' \<noteq> None))"
proof -
  let ?R = "{r. g_serves g ! i = SReturned r}"
  have r': "reach (agent_fire tx) g0 g'" by (rule reach_run [OF assms(2,5)])
  have "a_draining (g_a g) \<and> i < length (g_serves g) \<and> (\<forall>r. g_serves g ! i = SReturned r \<longrightarrow> r \<in> insert ErrShutdown ?R)"
    using assms(3,4) by simp
  note b = send.run_bounded [OF this assms(5)]
  have inv: "conns_inv tx g'" "select_ok g'"
    using asys.reach_inv [OF assms(1) r'] ssel.reach_inv [OF assms(1) r'] by (simp_all add: agent_inv_def)
  have "agent_fire tx (AServeStep i res pick ps) g' \<noteq> None"
    if "\<nexists>r. g_serves g' ! i = SReturned r" "request_pool_ok ps" for res pick ps
    using serve_enabled [of g' i ps tx res pick] b inv that by (simp add: conns_inv_def)
  moreover have "length (filter (serve_event i) evs) \<le> 5" using b serve_left_bound [of "g_serves g ! i"] by simp
  ultimately show ?thesis using b by auto
qed

theorem agent_serve_returns_witness:
  "\<exists>g g'. reach (agent_fire sample_texts) agent_new g \<and> a_draining (g_a g) \<and>
     run_events (agent_fire sample_texts) [serves] g = Some g' \<and> g_serves g' ! 0 = SReturned ErrShutdown"
proof (rule agent_runs_toE [OF sample_serve_end])
  fix g
  assume r: "reach (agent_fire sample_texts) agent_new g"
    and g: "a_draining (g_a g) \<and> (case g_serves g of [SAcquire l b] \<Rightarrow> True | _ \<Rightarrow> False) \<and>
        (case run_events (agent_fire sample_texts) [serves] g of
           Some g' \<Rightarrow> (case g_serves g' of [SReturned r] \<Rightarrow> True | _ \<Rightarrow> False) | None \<Rightarrow> False)"
  then obtain g' where g': "run_events (agent_fire sample_texts) [serves] g = Some g'"
    and e: "case g_serves g' of [SReturned r] \<Rightarrow> True | _ \<Rightarrow> False" by (metis (no_types, lifting) option.case_eq_if option.collapse)
  from g obtain l b where s: "g_serves g = [SAcquire l b]" by (simp split: list.splits spc.splits)
  from e obtain x where x: "g_serves g' = [SReturned x]" by (simp split: list.splits spc.splits)
  have i: "0 < length (g_serves g)" using s by simp
  from agent_serve_returns [OF agent_new_start r conjunct1 [OF g] i g'] s x have "x = ErrShutdown" by auto
  with r g g' x show ?thesis by (intro exI [of _ g] exI [of _ g']) simp
qed



end
