(* ===== verification/Client.thy ===== *)
theory Client
  imports Frame_Codec Request Transport
begin

text \<open>
  Package \<open>client\<close> (\<open>src/client/client.go\<close>): the small client the project tests its agent with. The
  connection is the socket of \<open>Transport\<close>; the buffered reader over it is the bytes that will
  arrive and the error the stream then ends with. Deferred releases run in the reverse of the
  order in which the frames were acquired.
\<close>

section \<open>The client\<close>

record Client =
  cl_conn :: net_conn
  cl_reader :: reader

datatype client_error =
    ClEncode encode_error
  | ClIO io_error
  | ClSizeMismatch
  | ClRead read_error
  | ClIdMismatch
  | ClFrameType byte

definition NewClient :: "net_conn \<Rightarrow> reader \<Rightarrow> Client" where
  "NewClient conn incoming = \<lparr>cl_conn = conn, cl_reader = incoming\<rparr>"

definition client_send :: "Frame \<Rightarrow> Client \<Rightarrow> client_error option \<times> Frame \<times> Client" where
  "client_send f c =
     (let ((_, err), f, buf) = Frame_Encode buffer_write f [] in
      case err of
        Some e \<Rightarrow> (Some (ClEncode e), f, c)
      | None \<Rightarrow>
          let ((n, err), nc) = net_Write buf (cl_conn c); c = c\<lparr>cl_conn := nc\<rparr> in
          (case err of
             Some e \<Rightarrow> Some (ClIO e)
           | None \<Rightarrow> if n \<noteq> length buf then Some ClSizeMismatch else None, f, c))"

definition Init :: "Client \<Rightarrow> 'x frame_pools_scheme \<Rightarrow> client_error option \<times> Client \<times> 'x frame_pools_scheme" where
  "Init c ps =
     (let (f, ps) = AcquireFrame ps;
          f = f\<lparr>f_Type := TypeHAProxyHello, f_StreamID := 0, f_FrameID := 0\<rparr>;
          f = f\<lparr>f_KV := KV_Add (gostr ''supported-versions'') (VString (gostr ''2.0'')) (f_KV f)\<rparr>;
          f = f\<lparr>f_KV := KV_Add (gostr ''max-frame-size'') (VUint32 (16 * 1024)) (f_KV f)\<rparr>;
          f = f\<lparr>f_KV := KV_Add (gostr ''capabilities'') (VString []) (f_KV f)\<rparr>;
          (err, f, c) = client_send f c
      in case err of
           Some e \<Rightarrow> (Some e, c, ReleaseFrame f ps)
         | None \<Rightarrow>
             let (g, ps) = AcquireFrame ps;
                 (err, g, src, ps) = Frame_ReadLimit g (cl_reader c) MaxFrameSize (Some FromAgent) ps;
                 c = c\<lparr>cl_reader := src\<rparr>;
                 res = (case err of
                          Some e \<Rightarrow> Some (ClRead e)
                        | None \<Rightarrow>
                            if f_Type g = TypeAgentHello
                            then if f_FrameID g \<noteq> 0 \<or> f_StreamID g \<noteq> 0 then Some ClIdMismatch else None
                            else Some (ClFrameType (f_Type g)))
             in (res, c, ReleaseFrame f (ReleaseFrame g ps)))"

definition Notify :: "Client \<Rightarrow> 'x frame_pools_scheme \<Rightarrow> client_error option \<times> Client \<times> 'x frame_pools_scheme" where
  "Notify c ps =
     (let (f, ps) = AcquireFrame ps;
          f = f\<lparr>f_Type := TypeNotify, f_StreamID := 1, f_FrameID := 1\<rparr>;
          (err, f, c) = client_send f c
      in case err of
           Some e \<Rightarrow> (Some e, c, ReleaseFrame f ps)
         | None \<Rightarrow>
             let (g, ps) = AcquireFrame ps;
                 (err, g, src, ps) = Frame_ReadLimit g (cl_reader c) MaxFrameSize (Some FromAgent) ps;
                 c = c\<lparr>cl_reader := src\<rparr>;
                 res = (case err of
                          Some e \<Rightarrow> Some (ClRead e)
                        | None \<Rightarrow> if f_Type g \<noteq> TypeAgentAck then Some (ClFrameType (f_Type g)) else None)
             in (res, c, ReleaseFrame f (ReleaseFrame g ps)))"

definition Stop :: "Client \<Rightarrow> 'x frame_pools_scheme \<Rightarrow> client_error option \<times> Client \<times> 'x frame_pools_scheme" where
  "Stop c ps =
     (let (f, ps) = AcquireFrame ps;
          f = f\<lparr>f_Type := TypeHAProxyDisconnect, f_StreamID := 0, f_FrameID := 0\<rparr>;
          f = f\<lparr>f_KV := KV_Add (gostr ''status-code'') (VUint32 0) (f_KV f)\<rparr>;
          f = f\<lparr>f_KV := KV_Add (gostr ''message'') (VString (gostr ''normal'')) (f_KV f)\<rparr>;
          (err, f, c) = client_send f c
      in case err of
           Some e \<Rightarrow> (Some e, c, ReleaseFrame f ps)
         | None \<Rightarrow>
             let (g, ps) = AcquireFrame ps;
                 (err, g, src, ps) = Frame_ReadLimit g (cl_reader c) MaxFrameSize (Some FromAgent) ps;
                 c = c\<lparr>cl_reader := src\<rparr>;
                 res = (case err of
                          Some e \<Rightarrow> Some (ClRead e)
                        | None \<Rightarrow> if f_Type g \<noteq> TypeAgentDisconnect then Some (ClFrameType (f_Type g)) else None)
             in (res, c, ReleaseFrame f (ReleaseFrame g ps)))"

section \<open>One exchange\<close>

text \<open>The shape the three calls share: a frame is filled in, sent, and a reply read and judged.\<close>

definition exchange ::
  "(Frame \<Rightarrow> Frame) \<Rightarrow> (Frame \<Rightarrow> client_error option) \<Rightarrow> Client \<Rightarrow> 'x frame_pools_scheme \<Rightarrow>
    client_error option \<times> Client \<times> 'x frame_pools_scheme" where
  "exchange fill judge c ps =
     (let (f, ps) = AcquireFrame ps; (err, f, c) = client_send (fill f) c in
      case err of
        Some e \<Rightarrow> (Some e, c, ReleaseFrame f ps)
      | None \<Rightarrow>
          let (g, ps) = AcquireFrame ps;
              (err, g, src, ps) = Frame_ReadLimit g (cl_reader c) MaxFrameSize (Some FromAgent) ps
          in (case err of Some e \<Rightarrow> Some (ClRead e) | None \<Rightarrow> judge g, c\<lparr>cl_reader := src\<rparr>,
              ReleaseFrame f (ReleaseFrame g ps)))"

definition fill_frame :: "byte \<Rightarrow> u64 \<Rightarrow> (gostring \<times> go_value) list \<Rightarrow> Frame \<Rightarrow> Frame" where
  "fill_frame t i items f =
     f\<lparr>f_Type := t, f_StreamID := i, f_FrameID := i, f_KV := fold (\<lambda>(k, v) kv. KV_Add k v kv) items (f_KV f)\<rparr>"

definition expects :: "byte \<Rightarrow> bool \<Rightarrow> Frame \<Rightarrow> client_error option" where
  "expects t zero g =
     (if f_Type g \<noteq> t then Some (ClFrameType (f_Type g))
      else if zero \<and> (f_FrameID g \<noteq> 0 \<or> f_StreamID g \<noteq> 0) then Some ClIdMismatch
      else None)"

definition hello_items :: "(gostring \<times> go_value) list" where
  "hello_items = [(gostr ''supported-versions'', VString (gostr ''2.0'')),
     (gostr ''max-frame-size'', VUint32 16384), (gostr ''capabilities'', VString [])]"

definition bye_items :: "(gostring \<times> go_value) list" where
  "bye_items = [(gostr ''status-code'', VUint32 0), (gostr ''message'', VString (gostr ''normal''))]"

lemma calls_exchange:
  "Init = exchange (fill_frame TypeHAProxyHello 0 hello_items) (expects TypeAgentHello True)"
  "Notify = exchange (fill_frame TypeNotify 1 []) (expects TypeAgentAck False)"
  "Stop = exchange (fill_frame TypeHAProxyDisconnect 0 bye_items) (expects TypeAgentDisconnect False)"
  by (intro ext; simp add: Init_def Notify_def Stop_def exchange_def fill_frame_def expects_def hello_items_def
      bye_items_def Let_def case_prod_beta cong: option.case_cong)+

section \<open>What a call sends and accepts\<close>

abbreviation mk_items :: "(gostring \<times> go_value) list \<Rightarrow> Item list" where
  "mk_items items \<equiv> map (\<lambda>(k, v). \<lparr>item_Name = k, item_Value = v\<rparr>) items"

definition call_wire :: "byte \<Rightarrow> u64 \<Rightarrow> (gostring \<times> go_value) list \<Rightarrow> bytes" where
  "call_wire t i items =
     (let body = t # be32 flagFin @ put_scratch i @ put_scratch i @ concat (map item_bytes (mk_items items))
      in be32 (word_of_nat (length body)) @ body)"

lemma fold_KV_Add:
  "kv_m (fold (\<lambda>(k, v) kv. KV_Add k v kv) items kv) = kv_m kv @ mk_items items"
  "kv_ok (fold (\<lambda>(k, v) kv. KV_Add k v kv) items kv) = kv_ok kv"
  by (induction items arbitrary: kv) (auto simp: KV_Add_def kv_ok_def)

lemma fill_encode:
  assumes "frame_clean f" and "list_all (\<lambda>(k, v). encodable v) items"
    and "t \<in> {TypeHAProxyHello, TypeHAProxyDisconnect, TypeAgentHello, TypeAgentDisconnect} \<or> t = TypeNotify \<and> items = []"
  shows "\<exists>f'. Frame_Encode buffer_write (fill_frame t i items f) [] =
      ((length (call_wire t i items), None), f', call_wire t i items) \<and> frame_ok f' \<and> f_Messages f' = []"
proof -
  let ?f = "fill_frame t i items f"
  note clean = frame_clean_fields [OF assms(1)]
  have ok: "frame_ok ?f" using clean(12) by (simp add: fill_frame_def frame_ok_def fold_KV_Add(2))
  have m: "kv_m (f_KV ?f) = mk_items items" using clean(15) by (simp add: fill_frame_def fold_KV_Add(1))
  have "find (\<lambda>i. \<not> encodable (item_Value i)) (mk_items items) = None"
    using assms(2) by (auto simp: find_None_iff list_all_iff)
  then have kv: "fst (KV_Bytes (f_KV ?f)) = Inr (concat (map item_bytes (mk_items items)))"
    using KV_Bytes_spec(1) [of "f_KV ?f"] ok m by (simp add: frame_ok_def)
  have ty: "f_Type ?f = t" by (simp add: fill_frame_def)
  have p: "fst (encode_payload ?f) = Inr (concat (map item_bytes (mk_items items)))"
    using assms(3) ty kv clean(10) by (auto simp: encode_payload_def case_prod_beta frame_type_defs fill_frame_def)
  have w: "frame_wire ?f (concat (map item_bytes (mk_items items))) = call_wire t i items"
    using clean(3) by (simp add: frame_wire_def frame_body_def call_wire_def fill_frame_def Let_def)
  have fin: "\<not> (IsAbort ?f \<and> \<not> IsFin ?f)" using clean(3) by (simp add: IsAbort_def IsFin_def fill_frame_def flagFin_def flagAbort_def)
  obtain f' where f': "frame_ok f'" "same_contents f' ?f" and e: "Frame_Encode buffer_write ?f [] =
       (if IsAbort ?f \<and> \<not> IsFin ?f then ((0, Some EncAbortWithoutFin), ?f, [])
        else case fst (encode_payload ?f) of
            Inl err \<Rightarrow> ((0, Some err), f', [])
          | Inr payload \<Rightarrow>
              (case buffer_write (frame_wire ?f payload) [] of ((n, err), dest') \<Rightarrow>
                 ((n, if err \<noteq> None \<or> n \<noteq> length (frame_wire ?f payload)
                      then Some (EncWrite n (length (frame_wire ?f payload)) err) else None),
                  f'\<lparr>f_Len := word_of_nat (length (frame_body ?f payload))\<rparr>, dest')))"
    by (rule Frame_Encode_cases [OF ok])
  have "f_Messages f' = []" using f'(2) clean(10) by (simp add: same_contents_def fill_frame_def)
  with e fin p w f'(1) show ?thesis by (auto simp: buffer_write_def frame_ok_def)
qed

text \<open>A socket that takes a frame of \<open>n\<close> bytes whenever it is given one.\<close>

definition takes :: "nat \<Rightarrow> net_conn \<Rightarrow> bool" where
  "takes n nc \<longleftrightarrow> \<not> nc_closed nc \<and> (\<forall>i. n \<le> fst (nc_script nc i) \<and> snd (nc_script nc i) = None)"

lemma takes_write:
  assumes "takes n nc" and "length b \<le> n"
  shows "net_Write b nc = ((length b, None), nc\<lparr>nc_ops := Suc (nc_ops nc), nc_log := nc_log nc @ [(b, length b)]\<rparr>)"
proof -
  obtain k where k: "nc_script nc (nc_ops nc) = (k, None)" "n \<le> k" "\<not> nc_closed nc"
    using assms(1) unfolding takes_def by (metis prod.collapse)
  with assms(2) show ?thesis by (simp add: net_Write_def net_next_def min_absorb2 Let_def)
qed

lemma exchange_answered:
  assumes ps: "frame_pool_ok ps" and nc: "takes n (cl_conn c)" and w: "length (call_wire t i items) \<le> n"
    and fill: "list_all (\<lambda>(k, v). encodable v) items"
      "t \<in> {TypeHAProxyHello, TypeHAProxyDisconnect, TypeAgentHello, TypeAgentDisconnect} \<or> t = TypeNotify \<and> items = []"
    and r: "frame_ok r" "payload_ok r" "Frame_Encode buffer_write r [] = ((m, None), r', reply)"
      "m - 4 \<le> unat MaxFrameSize" "f_Type r \<in> set FromAgent"
    and src: "cl_reader c = \<lparr>rd_data = reply @ rest, rd_end = e\<rparr>"
  shows "\<exists>g c' ps'. exchange (fill_frame t i items) judge c ps = (judge g, c', ps') \<and>
    f_Type g = f_Type r \<and> f_StreamID g = f_StreamID r \<and> f_FrameID g = f_FrameID r \<and>
    nc_log (cl_conn c') = nc_log (cl_conn c) @ [(call_wire t i items, length (call_wire t i items))] \<and>
    takes n (cl_conn c') \<and> cl_reader c' = \<lparr>rd_data = rest, rd_end = e\<rparr> \<and>
    frame_pool_ok ps' \<and> frame_out ps' = frame_out ps \<and> msg_out ps' = msg_out ps"
proof -
  obtain f ps1 where a: "AcquireFrame ps = (f, ps1)" by fastforce
  from AcquireFrame_ok [OF ps a] have f: "frame_clean f" and ps1: "frame_pool_ok ps1" by simp_all
  obtain f' where enc: "Frame_Encode buffer_write (fill_frame t i items f) [] =
      ((length (call_wire t i items), None), f', call_wire t i items)" and f': "frame_ok f'" "f_Messages f' = []"
    using fill_encode [OF f fill] by blast
  let ?nc = "(cl_conn c)\<lparr>nc_ops := Suc (nc_ops (cl_conn c)),
    nc_log := nc_log (cl_conn c) @ [(call_wire t i items, length (call_wire t i items))]\<rparr>"
  have send: "client_send (fill_frame t i items f) c = (None, f', c\<lparr>cl_conn := ?nc\<rparr>)"
    using enc takes_write [OF nc w] by (simp add: client_send_def)
  obtain g0 ps2 where b: "AcquireFrame ps1 = (g0, ps2)" by fastforce
  from AcquireFrame_ok [OF ps1 b] have g0: "frame_clean g0" and ps2: "frame_pool_ok ps2" by simp_all
  have acc: "acceptsType (Some FromAgent) (f_Type r)" using r(5) by simp
  have lim: "m - 4 \<le> unat (min MaxFrameSize MaxFrameSize)" using r(4) by simp
  obtain g where g: "Frame_ReadLimit g0 \<lparr>rd_data = reply @ rest, rd_end = e\<rparr> MaxFrameSize (Some FromAgent) ps2 =
      (None, g, \<lparr>rd_data = rest, rd_end = e\<rparr>, ps2)" "f_Type g = f_Type r" "f_StreamID g = f_StreamID r"
      "f_FrameID g = f_FrameID r" "f_Messages g = []"
    using frame_read_back [OF r(1-3) lim acc g0, of rest e ps2] by blast
  have "frame_ok g" using Frame_ReadLimit_ok [OF _ ps2 g(1)] frame_clean_fields(12) [OF g0] by simp
  with ps2 f' ReleaseFrame_ok have ps3: "frame_pool_ok (ReleaseFrame f' (ReleaseFrame g ps2))" by blast
  have "exchange (fill_frame t i items) judge c ps =
      (judge g, c\<lparr>cl_conn := ?nc, cl_reader := \<lparr>rd_data = rest, rd_end = e\<rparr>\<rparr>, ReleaseFrame f' (ReleaseFrame g ps2))"
    using a send b g(1) src by (simp add: exchange_def)
  moreover have "frame_out ps2 = frame_out ps + 2" "msg_out ps2 = msg_out ps"
    using arg_cong [OF a, of snd] arg_cong [OF b, of snd] frame_out_simps(1) [of ps] frame_out_simps(1) [of ps1]
      msg_out_AcquireFrame [of ps] msg_out_AcquireFrame [of ps1] by simp_all
  ultimately show ?thesis
    using g ps3 f'(2) nc by (auto simp: frame_out_simps msg_out_ReleaseFrame takes_def)
qed

end
