(* ===== verification/Session.thy ===== *)
theory Session
  imports Client Worker
begin

text \<open>
  The client and the worker together: for each of the three calls of \<open>src/client/client.go\<close>, what the
  worker of \<open>src/worker/\<close> makes of the frame the client sends, and that the client accepts the frame
  the worker answers with. The bytes each side writes are the bytes the other reads.
\<close>

section \<open>What the two sides write\<close>

definition agent_hello_items :: "u32 \<Rightarrow> (gostring \<times> go_value) list" where
  "agent_hello_items m = [(helloKeyVersion, VString version), (helloKeyMaxFrameSize, VUint32 m),
     (helloKeyCapabilities, VString capabilityPipelining)]"

definition agent_bye_items :: "u32 \<Rightarrow> gostring \<Rightarrow> (gostring \<times> go_value) list" where
  "agent_bye_items code msg = [(gostr ''status-code'', VUint32 code), (gostr ''message'', VString msg)]"

definition client_hello :: bytes where "client_hello = call_wire TypeHAProxyHello 0 hello_items"
definition client_notify :: bytes where "client_notify = call_wire TypeNotify 1 []"
definition client_bye :: bytes where "client_bye = call_wire TypeHAProxyDisconnect 0 bye_items"
definition agent_hello :: bytes where "agent_hello = call_wire TypeAgentHello 0 (agent_hello_items 16384)"
definition agent_bye :: bytes where
  "agent_bye = call_wire TypeAgentDisconnect 0 (agent_bye_items statusCodeNormal (gostr ''connection closed by server''))"

lemma wire_lengths:
  "length client_hello \<le> 100" "length client_notify \<le> 100" "length client_bye \<le> 100"
  "length agent_hello \<le> 100" "length agent_bye \<le> 100"
  by code_simp+

lemma items_encodable:
  "list_all (\<lambda>(k, v). encodable v) hello_items" "list_all (\<lambda>(k, v). encodable v) bye_items"
  "list_all (\<lambda>(k, v). encodable v) (agent_hello_items m)" "list_all (\<lambda>(k, v). encodable v) (agent_bye_items code msg)"
  by (simp_all add: hello_items_def bye_items_def agent_hello_items_def agent_bye_items_def encodable_def)

lemma WriteFrame_takes:
  assumes "takes n (t_conn c)" and "length b \<le> n" and "\<not> t_closed c"
  shows "\<exists>c'. WriteFrame now b c = (None, c') \<and> log_of c' = log_of c @ [(b, length b)] \<and> takes n (t_conn c') \<and> \<not> t_closed c'"
proof -
  have dl: "\<exists>nc'. net_SetWriteDeadline t nc = (None, nc') \<and> takes n nc' \<and> nc_log nc' = nc_log nc" if nc: "takes n nc" for t nc
  proof -
    obtain k where "nc_script nc (nc_ops nc) = (k, None)" "\<not> nc_closed nc" using nc unfolding takes_def by (metis prod.collapse)
    with nc show ?thesis by (simp add: net_SetWriteDeadline_def net_next_def takes_def)
  qed
  have wr: "\<exists>nc'. write_whole b nc = (None, nc') \<and> takes n nc' \<and> nc_log nc' = nc_log nc @ [(b, length b)]" if "takes n nc" for nc
    using takes_write [OF that assms(2)] that by (simp add: write_whole_def takes_def)
  show ?thesis
  proof (cases "t_writeTimeout c > 0")
    case False
    from wr [OF assms(1)] False assms(3) show ?thesis
      by (auto simp: WriteFrame_def WritePayload_def IsClosed_def WriteTimeout_def log_of_def)
  next
    case True
    obtain nc1 where 1: "net_SetWriteDeadline (Some (now + t_writeTimeout c)) (t_conn c) = (None, nc1)" "takes n nc1"
      "nc_log nc1 = nc_log (t_conn c)" using dl [OF assms(1)] by blast
    obtain nc2 where 2: "write_whole b nc1 = (None, nc2)" "takes n nc2" "nc_log nc2 = nc_log nc1 @ [(b, length b)]"
      using wr [OF 1(2)] by blast
    obtain nc3 where 3: "net_SetWriteDeadline None nc2 = (None, nc3)" "takes n nc3" "nc_log nc3 = nc_log nc2"
      using dl [OF 2(2)] by blast
    from 1 2 3 True assms(3) show ?thesis
      by (simp add: WriteFrame_def WritePayload_def IsClosed_def WriteTimeout_def log_of_def)
  qed
qed

section \<open>Reading what the other side wrote\<close>

text \<open>The frames of a call, as the filling of a new frame: they encode to the bytes above, and the
  other side reads their items back.\<close>

lemma filled_frame:
  assumes "list_all (\<lambda>(k, v). encodable v) items"
    and "t \<in> {TypeHAProxyHello, TypeHAProxyDisconnect, TypeAgentHello, TypeAgentDisconnect} \<or> t = TypeNotify \<and> items = []"
  shows "frame_ok (fill_frame t i items blank_frame)" "f_Type (fill_frame t i items blank_frame) = t"
    "f_StreamID (fill_frame t i items blank_frame) = i" "f_FrameID (fill_frame t i items blank_frame) = i"
    "kv_m (f_KV (fill_frame t i items blank_frame)) = mk_items items"
    "\<exists>f'. Frame_Encode buffer_write (fill_frame t i items blank_frame) [] =
      ((length (call_wire t i items), None), f', call_wire t i items)"
proof -
  note clean = frame_clean_fields [OF sample_frame_ok(3)]
  show "frame_ok (fill_frame t i items blank_frame)" "f_Type (fill_frame t i items blank_frame) = t"
    "f_StreamID (fill_frame t i items blank_frame) = i" "f_FrameID (fill_frame t i items blank_frame) = i"
    "kv_m (f_KV (fill_frame t i items blank_frame)) = mk_items items"
    using clean(12,15) by (simp_all add: fill_frame_def frame_ok_def fold_KV_Add)
  show "\<exists>f'. Frame_Encode buffer_write (fill_frame t i items blank_frame) [] =
      ((length (call_wire t i items), None), f', call_wire t i items)"
    using fill_encode [OF sample_frame_ok(3) assms] by blast
qed

lemma blank_fields: "kv_m (f_KV blank_frame) = []" "f_Actions blank_frame = []"
  using frame_clean_fields [OF sample_frame_ok(3)] by simp_all

lemma version_text: "version = gostr ''2.0''"
  by code_simp

lemma call_sized:
  "payload_ok (fill_frame TypeHAProxyHello 0 hello_items blank_frame)"
  "payload_ok (fill_frame TypeNotify 1 [] blank_frame)"
  "payload_ok (fill_frame TypeHAProxyDisconnect 0 bye_items blank_frame)"
  "payload_ok (fill_frame TypeAgentHello 0 (agent_hello_items 16384) blank_frame)"
  "payload_ok (fill_frame TypeAgentDisconnect 0
     (agent_bye_items statusCodeNormal (gostr ''connection closed by server'')) blank_frame)"
  by (simp_all add: payload_ok_def payload_sized_def payload_readable_def hello_typed_def item_typed_def KV_Get_def KV_Add_def fill_frame_def blank_fields hello_items_def
      bye_items_def agent_hello_items_def agent_bye_items_def td_sized_def gostr_def as_bool_def as_uint32_def as_string_def
      frame_type_defs helloKeyVersion_def helloKeyMaxFrameSize_def helloKeyCapabilities_def capabilityPipelining_def version_text)

lemma call_read:
  assumes "list_all (\<lambda>(k, v). encodable v) items"
    and "t \<in> {TypeHAProxyHello, TypeHAProxyDisconnect, TypeAgentHello, TypeAgentDisconnect} \<or> t = TypeNotify \<and> items = []"
    and "payload_ok (fill_frame t i items blank_frame)" and "length (call_wire t i items) \<le> 100"
    and "100 \<le> unat (min limit MaxFrameSize)" and "acceptsType accept t" and "frame_clean g"
  shows "\<exists>g'. Frame_ReadLimit g \<lparr>rd_data = call_wire t i items @ rest, rd_end = e\<rparr> limit accept ps =
      (None, g', \<lparr>rd_data = rest, rd_end = e\<rparr>, ps) \<and> f_Type g' = t \<and> f_StreamID g' = i \<and> f_FrameID g' = i \<and>
    kv_m (f_KV g') = (if t \<in> {TypeAgentAck, TypeNotify} then [] else map item_norm (mk_items items)) \<and> f_Messages g' = []"
proof -
  note f = filled_frame [OF assms(1,2), of i]
  from f(6) obtain f' where enc: "Frame_Encode buffer_write (fill_frame t i items blank_frame) [] =
      ((length (call_wire t i items), None), f', call_wire t i items)" by blast
  have lim: "length (call_wire t i items) - 4 \<le> unat (min limit MaxFrameSize)" using assms(4,5) by simp
  have acc: "acceptsType accept (f_Type (fill_frame t i items blank_frame))" using assms(6) f(2) by simp
  from frame_read_back [OF f(1) assms(3) enc lim acc assms(7), of rest e ps] f show ?thesis by auto
qed

section \<open>What the worker answers\<close>

lemma sendAgentHello_takes:
  assumes "request_pool_ok (w_pools w)" and "takes n (t_conn (w_conn w))" "100 \<le> n" and "\<not> t_closed (w_conn w)"
  shows "\<exists>c ps. sendAgentHello now \<lparr>neg_maxFrameSize = 16384\<rparr> w = (None, w\<lparr>w_conn := c, w_pools := ps\<rparr>) \<and>
    log_of c = log_of (w_conn w) @ [(agent_hello, length agent_hello)]"
proof -
  obtain f ps where a: "AcquireFrame (w_pools w) = (f, ps)" by fastforce
  have clean: "frame_clean f" using AcquireFrame_request_ok [OF assms(1) a] by simp
  have fill: "f\<lparr>f_Type := TypeAgentHello, f_FrameID := 0, f_StreamID := 0,
      f_KV := KV_Add helloKeyCapabilities (VString capabilityPipelining) (KV_Add helloKeyMaxFrameSize (VUint32 16384)
        (KV_Add helloKeyVersion (VString version) (f_KV f)))\<rparr> = fill_frame TypeAgentHello 0 (agent_hello_items 16384) f"
    by (simp add: fill_frame_def agent_hello_items_def)
  obtain f' where e: "Frame_Encode buffer_write (fill_frame TypeAgentHello 0 (agent_hello_items 16384) f) [] =
      ((length agent_hello, None), f', agent_hello)"
    using fill_encode [OF clean items_encodable(3) disjI1, of TypeAgentHello 0 16384] by (auto simp: agent_hello_def)
  have "length agent_hello \<le> n" using wire_lengths(4) assms(3) by simp
  from WriteFrame_takes [OF assms(2) this assms(4), of now] obtain c where
    "WriteFrame now agent_hello (w_conn w) = (None, c)" "log_of c = log_of (w_conn w) @ [(agent_hello, length agent_hello)]" by blast
  with a e fill show ?thesis by (intro exI [of _ c] exI [of _ "ReleaseFrame f' ps"]) (simp add: sendAgentHello_def)
qed

lemma sendAgentDisconnect_takes:
  assumes "request_pool_ok (w_pools w)" and "takes n (t_conn (w_conn w))" "100 \<le> n" and "\<not> t_closed (w_conn w)"
  shows "\<exists>c ps. sendAgentDisconnect now statusCodeNormal (gostr ''connection closed by server'') w =
      (None, w\<lparr>w_goodbyeSent := True, w_conn := c, w_pools := ps\<rparr>) \<and>
    log_of c = log_of (w_conn w) @ [(agent_bye, length agent_bye)]"
proof -
  let ?items = "agent_bye_items statusCodeNormal (gostr ''connection closed by server'')"
  obtain f ps where a: "AcquireFrame (w_pools w) = (f, ps)" by fastforce
  have clean: "frame_clean f" using AcquireFrame_request_ok [OF assms(1) a] by simp
  have fill: "f\<lparr>f_Type := TypeAgentDisconnect, f_FrameID := 0, f_StreamID := 0,
      f_KV := KV_Add (gostr ''message'') (VString (gostr ''connection closed by server''))
        (KV_Add (gostr ''status-code'') (VUint32 statusCodeNormal) (f_KV f))\<rparr> = fill_frame TypeAgentDisconnect 0 ?items f"
    by (simp add: fill_frame_def agent_bye_items_def)
  obtain f' where e: "Frame_Encode buffer_write (fill_frame TypeAgentDisconnect 0 ?items f) [] =
      ((length agent_bye, None), f', agent_bye)"
    using fill_encode [OF clean items_encodable(4) disjI1, of TypeAgentDisconnect 0 statusCodeNormal "gostr ''connection closed by server''"]
    by (auto simp: agent_bye_def)
  have "length agent_bye \<le> n" using wire_lengths(5) assms(3) by simp
  from WriteFrame_takes [OF assms(2) this assms(4), of now] obtain c where
    "WriteFrame now agent_bye (w_conn w) = (None, c)" "log_of c = log_of (w_conn w) @ [(agent_bye, length agent_bye)]" by blast
  with a e fill show ?thesis by (intro exI [of _ c] exI [of _ "ReleaseFrame f' ps"]) (simp add: sendAgentDisconnect_def)
qed

text \<open>The HELLO of the client passes every check of the negotiation.\<close>

lemma two_supported: "versionSupported (gostr ''2.0'')"
  by code_simp

lemma hello_read:
  assumes "kv_m (f_KV f) = map item_norm (mk_items hello_items)"
  shows "negotiate quote f = Inr \<lparr>neg_maxFrameSize = 16384\<rparr>"
    and "item_as as_bool (gostr ''healthcheck'') (f_KV f) = None"
proof -
  have m: "kv_m (f_KV f) = mk_items hello_items"
    using assms by (simp add: hello_items_def item_norm_def td_norm_def)
  have names: "gostr ''supported-versions'' \<noteq> gostr ''max-frame-size''" "gostr ''capabilities'' \<noteq> gostr ''max-frame-size''"
    "gostr ''capabilities'' \<noteq> gostr ''supported-versions''" "gostr ''healthcheck'' \<noteq> gostr ''supported-versions''"
    "gostr ''healthcheck'' \<noteq> gostr ''max-frame-size''" "gostr ''healthcheck'' \<noteq> gostr ''capabilities''"
    by (simp_all add: gostr_def)
  have "KV_Get (f_KV f) (gostr ''supported-versions'') = (VString (gostr ''2.0''), True)"
    "KV_Get (f_KV f) (gostr ''max-frame-size'') = (VUint32 16384, True)"
    "KV_Get (f_KV f) (gostr ''capabilities'') = (VString [], True)"
    "\<not> snd (KV_Get (f_KV f) (gostr ''healthcheck''))"
    using m names by (simp_all add: KV_Get_def hello_items_def)
  then show "negotiate quote f = Inr \<lparr>neg_maxFrameSize = 16384\<rparr>" "item_as as_bool (gostr ''healthcheck'') (f_KV f) = None"
    using two_supported
    by (simp_all add: negotiate_def stringItem_def as_string_def as_uint32_def item_as_def minFrameSize_def MaxFrameSize_val
        case_prod_beta)
qed

section \<open>The three exchanges\<close>

lemma fromAgent: "t \<in> {TypeAgentHello, TypeAgentDisconnect, TypeAgentAck} \<Longrightarrow> t \<in> set FromAgent"
  by (auto simp: FromAgent_def)

lemma fromHAProxy: "t \<in> {TypeHAProxyHello, TypeHAProxyDisconnect, TypeNotify} \<Longrightarrow> acceptsType (Some FromHAProxy) t"
  by (auto simp: FromHAProxy_def)

lemma small_limit: "100 \<le> unat (min MaxFrameSize MaxFrameSize)"
  by (simp add: MaxFrameSize_val)

text \<open>The client's side: a call whose frame the socket takes returns nil on the answer it expects.\<close>

lemma call_answered:
  assumes "frame_pool_ok ps" and "takes n nc" "100 \<le> n"
    and "list_all (\<lambda>(k, v). encodable v) items" "length (call_wire t i items) \<le> 100"
      "t \<in> {TypeHAProxyHello, TypeHAProxyDisconnect, TypeAgentHello, TypeAgentDisconnect} \<or> t = TypeNotify \<and> items = []"
    and "frame_ok r" "payload_ok r" "Frame_Encode buffer_write r [] = ((m, None), r', reply)" "m - 4 \<le> unat MaxFrameSize"
    and "f_Type r = t'" "t' \<in> {TypeAgentHello, TypeAgentDisconnect, TypeAgentAck}" and "z \<longrightarrow> f_StreamID r = 0 \<and> f_FrameID r = 0"
  shows "\<exists>c ps'. exchange (fill_frame t i items) (expects t' z) (NewClient nc \<lparr>rd_data = reply @ rest, rd_end = e\<rparr>) ps = (None, c, ps') \<and>
    nc_log (cl_conn c) = nc_log nc @ [(call_wire t i items, length (call_wire t i items))] \<and> takes n (cl_conn c) \<and>
    cl_reader c = \<lparr>rd_data = rest, rd_end = e\<rparr> \<and> frame_pool_ok ps' \<and> frame_out ps' = frame_out ps \<and> msg_out ps' = msg_out ps"
proof -
  let ?c = "NewClient nc \<lparr>rd_data = reply @ rest, rd_end = e\<rparr>"
  have c: "takes n (cl_conn ?c)" "cl_reader ?c = \<lparr>rd_data = reply @ rest, rd_end = e\<rparr>" "cl_conn ?c = nc"
    using assms(2) by (simp_all add: NewClient_def)
  have w: "length (call_wire t i items) \<le> n" using assms(3,5) by simp
  have fa: "f_Type r \<in> set FromAgent" using fromAgent assms(11,12) by simp
  obtain g c' ps' where x: "exchange (fill_frame t i items) (expects t' z) ?c ps = (expects t' z g, c', ps')"
    "f_Type g = f_Type r" "f_StreamID g = f_StreamID r" "f_FrameID g = f_FrameID r"
    "nc_log (cl_conn c') = nc_log (cl_conn ?c) @ [(call_wire t i items, length (call_wire t i items))]"
    "takes n (cl_conn c')" "cl_reader c' = \<lparr>rd_data = rest, rd_end = e\<rparr>"
    "frame_pool_ok ps'" "frame_out ps' = frame_out ps" "msg_out ps' = msg_out ps"
    using exchange_answered [OF assms(1) c(1) w assms(4,6-10) fa c(2), of "expects t' z"] by blast
  have "expects t' z g = None" using x(2-4) assms(11,13) by (auto simp: expects_def)
  with x c(3) show ?thesis by (intro exI [of _ c'] exI [of _ ps']) simp
qed

text \<open>The worker's side of each call: the frame is read, and dispatched to the answer.\<close>

lemma worker_hello:
  assumes "request_pool_ok (w_pools w)" and "takes n (t_conn (w_conn w))" "100 \<le> n" and "\<not> t_closed (w_conn w)"
    and "\<not> w_ready w" "w_maxFrameSize w = 0" and "frame_clean f"
  shows "\<exists>f' w'. Frame_ReadLimit f \<lparr>rd_data = client_hello @ later_bytes, rd_end = e\<rparr> (frameLimit w) (Some FromHAProxy) (w_pools w) =
      (None, f', \<lparr>rd_data = later_bytes, rd_end = e\<rparr>, w_pools w) \<and> dispatch tx now f' w = (Next, w') \<and>
    w_ready w' \<and> w_maxFrameSize w' = 16384 \<and> log_of (w_conn w') = log_of (w_conn w) @ [(agent_hello, length agent_hello)]"
proof -
  have lim: "100 \<le> unat (min (frameLimit w) MaxFrameSize)" using assms(6) by (simp add: frameLimit_def MaxFrameSize_val)
  have acc: "acceptsType (Some FromHAProxy) TypeHAProxyHello" by (rule fromHAProxy) simp
  obtain f' where f': "Frame_ReadLimit f \<lparr>rd_data = client_hello @ later_bytes, rd_end = e\<rparr> (frameLimit w) (Some FromHAProxy) (w_pools w) =
      (None, f', \<lparr>rd_data = later_bytes, rd_end = e\<rparr>, w_pools w)" "f_Type f' = TypeHAProxyHello"
      "kv_m (f_KV f') = map item_norm (mk_items hello_items)"
    using call_read [OF items_encodable(1) disjI1 call_sized(1) _ lim acc assms(7), of later_bytes e "w_pools w"]
      wire_lengths(1) by (auto simp: client_hello_def frame_type_defs)
  have "\<not> f_Healthcheck f'"
    using hello_fields_read [OF assms(7) f'(1)] f'(2) hello_read(2) [OF f'(3)] by simp
  moreover let ?w = "w\<lparr>w_maxFrameSize := 16384, w_engineID := f_EngineID f'\<rparr>"
  obtain c ps where "sendAgentHello now \<lparr>neg_maxFrameSize = 16384\<rparr> ?w = (None, ?w\<lparr>w_conn := c, w_pools := ps\<rparr>)"
    "log_of c = log_of (w_conn w) @ [(agent_hello, length agent_hello)]"
    using sendAgentHello_takes [of ?w n now] assms(1-4) by auto
  ultimately have "dispatch tx now f' w = (Next, ?w\<lparr>w_conn := c, w_pools := ps, w_ready := True\<rparr>)"
    using f'(2) assms(5) hello_read(1) [OF f'(3)] by (simp add: dispatch_def)
  with f'(1) \<open>log_of c = _\<close> show ?thesis by (intro exI [of _ f'] exI conjI) (assumption, assumption, simp_all)
qed

lemma worker_bye:
  assumes "request_pool_ok (w_pools w)" and "takes n (t_conn (w_conn w))" "100 \<le> n" and "\<not> t_closed (w_conn w)"
    and "w_ready w" "256 \<le> unat (frameLimit w)" and "frame_clean f"
  shows "\<exists>f' w'. Frame_ReadLimit f \<lparr>rd_data = client_bye @ later_bytes, rd_end = e\<rparr> (frameLimit w) (Some FromHAProxy) (w_pools w) =
      (None, f', \<lparr>rd_data = later_bytes, rd_end = e\<rparr>, w_pools w) \<and> dispatch tx now f' w = (Return None, w') \<and>
    w_goodbyeSent w' \<and> log_of (w_conn w') = log_of (w_conn w) @ [(agent_bye, length agent_bye)]"
proof -
  have lim: "100 \<le> unat (min (frameLimit w) MaxFrameSize)" using assms(6) by (simp add: MaxFrameSize_val min_def)
  have acc: "acceptsType (Some FromHAProxy) TypeHAProxyDisconnect" by (rule fromHAProxy) simp
  obtain f' where f': "Frame_ReadLimit f \<lparr>rd_data = client_bye @ later_bytes, rd_end = e\<rparr> (frameLimit w) (Some FromHAProxy) (w_pools w) =
      (None, f', \<lparr>rd_data = later_bytes, rd_end = e\<rparr>, w_pools w)" "f_Type f' = TypeHAProxyDisconnect"
    using call_read [OF items_encodable(2) disjI1 call_sized(3) _ lim acc assms(7), of later_bytes e "w_pools w"]
      wire_lengths(3) by (auto simp: client_bye_def)
  obtain c ps where s: "sendAgentDisconnect now statusCodeNormal (gostr ''connection closed by server'') w =
      (None, w\<lparr>w_goodbyeSent := True, w_conn := c, w_pools := ps\<rparr>)" "log_of c = log_of (w_conn w) @ [(agent_bye, length agent_bye)]"
    using sendAgentDisconnect_takes [OF assms(1-4), of now] by blast
  then have "dispatch tx now f' w = (Return None, w\<lparr>w_goodbyeSent := True, w_conn := c, w_pools := ps\<rparr>)"
    using f'(2) assms(5) by (simp add: dispatch_def frame_type_defs)
  with f'(1) s(2) show ?thesis by (intro exI [of _ f'] exI conjI) (assumption, assumption, simp_all)
qed

lemma worker_notify:
  assumes "w_ready w" "256 \<le> unat (frameLimit w)" and "frame_clean f"
  shows "\<exists>f'. Frame_ReadLimit f \<lparr>rd_data = client_notify @ later_bytes, rd_end = e\<rparr> (frameLimit w) (Some FromHAProxy) (w_pools w) =
      (None, f', \<lparr>rd_data = later_bytes, rd_end = e\<rparr>, w_pools w) \<and> dispatch tx now f' w = (NeedSlot, w) \<and>
    f_StreamID f' = 1 \<and> f_FrameID f' = 1 \<and> f_Messages f' = []"
proof -
  have lim: "100 \<le> unat (min (frameLimit w) MaxFrameSize)" using assms(2) by (simp add: MaxFrameSize_val min_def)
  have acc: "acceptsType (Some FromHAProxy) TypeNotify" by (rule fromHAProxy) simp
  obtain f' where f': "Frame_ReadLimit f \<lparr>rd_data = client_notify @ later_bytes, rd_end = e\<rparr> (frameLimit w) (Some FromHAProxy) (w_pools w) =
      (None, f', \<lparr>rd_data = later_bytes, rd_end = e\<rparr>, w_pools w)" "f_Type f' = TypeNotify" "f_StreamID f' = 1" "f_FrameID f' = 1" "f_Messages f' = []"
    using call_read [OF _ disjI2 call_sized(2) _ lim acc assms(3), of later_bytes e "w_pools w"]
      wire_lengths(2) by (auto simp: client_notify_def)
  then show ?thesis using assms(1) by (simp add: dispatch_def frame_type_defs)
qed

text \<open>An ACK that \<open>writeFrame\<close> reports as written is a frame the client reads. The comparison with the
  limit is on the length reduced to 32 bits, so the frame has to be below 4 GiB for it to mean
  anything.\<close>

lemma ack_written:
  assumes "request_pool_ok (w_pools w)" and "conn_ok (w_conn w)" and "notify_ack now f req w = (None, ack, w')"
    and "list_all (\<lambda>a. unat (act_Scope a) \<le> 4 \<and> go_sized (act_Name a) \<and> td_sized (act_Value a)) (r_Actions req)"
    and "unat (frameLimit w) \<le> unat MaxFrameSize"
  obtains r m r' reply where "frame_ok r" "payload_ok r" "Frame_Encode buffer_write r [] = ((m, None), r', reply)"
    "f_Type r = TypeAgentAck" "log_of (w_conn w') = log_of (w_conn w) @ [(reply, length reply)]"
    "length reply < 2 ^ 32 \<longrightarrow> m - 4 \<le> unat MaxFrameSize"
proof -
  obtain a ps where a: "AcquireFrame (w_pools w) = (a, ps)" by fastforce
  have clean: "frame_clean a" using AcquireFrame_request_ok [OF assms(1) a] by simp
  let ?r = "a\<lparr>f_Type := TypeAgentAck, f_StreamID := f_StreamID f, f_FrameID := f_FrameID f, f_Actions := r_Actions req\<rparr>"
  have ok: "frame_ok ?r" "payload_ok ?r"
    using frame_clean_fields(12,15) [OF clean] assms(4)
    by (auto simp: frame_ok_def payload_ok_def payload_sized_def payload_readable_def list_all_iff frame_type_defs)
  obtain m err r' reply where enc: "Frame_Encode buffer_write ?r [] = ((m, err), r', reply)" by (metis prod.exhaust)
  from assms(3) a enc have err: "err = None" and big: "\<not> word_of_nat (m - frameLengthPrefix) > frameLimit (w\<lparr>w_pools := ps\<rparr>)"
    and wr: "WriteFrame now reply (w_conn w) = (None, w_conn w')"
    by (auto simp: notify_ack_def writeFrame_def Let_def split: if_splits option.splits prod.splits)
  have log: "log_of (w_conn w') = log_of (w_conn w) @ [(reply, length reply)]"
    using WriteFrame_cases [OF wr assms(2)] by auto
  have m: "m = length reply" using encode_buffer [OF ok(1) enc] err by simp
  have "m - 4 \<le> unat MaxFrameSize" if "length reply < 2 ^ 32"
  proof -
    have "unat (word_of_nat (m - 4) :: u32) = m - 4" using that m by (simp add: unat_of_nat)
    moreover have "(word_of_nat (m - 4) :: u32) \<le> frameLimit w"
      using big by (simp add: frameLengthPrefix_def frameLimit_def not_less split: if_splits)
    ultimately show ?thesis using assms(5) by (simp add: word_le_nat_alt)
  qed
  then show ?thesis using ok enc err log by (intro that [of ?r m r' reply]) auto
qed

section \<open>Both sides\<close>

lemma session_init:
  assumes "frame_pool_ok ps" and "takes 100 nc" and "request_pool_ok (w_pools w)" and "takes 100 (t_conn (w_conn w))"
    and "\<not> t_closed (w_conn w)" and "frame_clean f" and "\<not> w_ready w" "w_maxFrameSize w = 0"
  shows "\<exists>hello reply f' w' c ps'.
     Frame_ReadLimit f \<lparr>rd_data = hello @ xs, rd_end = e\<rparr> (frameLimit w) (Some FromHAProxy) (w_pools w) =
       (None, f', \<lparr>rd_data = xs, rd_end = e\<rparr>, w_pools w) \<and>
     dispatch tx now f' w = (Next, w') \<and> w_ready w' \<and> w_maxFrameSize w' = 16384 \<and>
     log_of (w_conn w') = log_of (w_conn w) @ [(reply, length reply)] \<and>
     Init (NewClient nc \<lparr>rd_data = reply @ ys, rd_end = e\<rparr>) ps = (None, c, ps') \<and>
     nc_log (cl_conn c) = nc_log nc @ [(hello, length hello)] \<and> cl_reader c = \<lparr>rd_data = ys, rd_end = e\<rparr> \<and>
     frame_out ps' = frame_out ps"
proof -
  note r = filled_frame [OF items_encodable(3) disjI1, of TypeAgentHello 0 16384]
  obtain r' where enc: "Frame_Encode buffer_write (fill_frame TypeAgentHello 0 (agent_hello_items 16384) blank_frame) [] =
      ((length agent_hello, None), r', agent_hello)" using r(6) by (auto simp: agent_hello_def)
  have "length agent_hello - 4 \<le> unat MaxFrameSize" using wire_lengths(4) by (simp add: MaxFrameSize_val)
  from call_answered [OF assms(1,2) _ items_encodable(1) wire_lengths(1) [unfolded client_hello_def] disjI1 r(1) call_sized(4) enc this
      r(2), of True ys e] r(3,4)
  obtain c ps' where "Init (NewClient nc \<lparr>rd_data = agent_hello @ ys, rd_end = e\<rparr>) ps = (None, c, ps')"
    "nc_log (cl_conn c) = nc_log nc @ [(client_hello, length client_hello)]" "cl_reader c = \<lparr>rd_data = ys, rd_end = e\<rparr>"
    "frame_out ps' = frame_out ps" by (auto simp: calls_exchange client_hello_def)
  with worker_hello [OF assms(3,4) _ assms(5,7,8,6), of xs e tx now] show ?thesis by blast
qed

lemma session_stop:
  assumes "frame_pool_ok ps" and "takes 100 nc" and "request_pool_ok (w_pools w)" and "takes 100 (t_conn (w_conn w))"
    and "\<not> t_closed (w_conn w)" and "frame_clean f" and "w_ready w" "256 \<le> unat (frameLimit w)"
  shows "\<exists>bye reply f' w' c ps'.
     Frame_ReadLimit f \<lparr>rd_data = bye @ xs, rd_end = e\<rparr> (frameLimit w) (Some FromHAProxy) (w_pools w) =
       (None, f', \<lparr>rd_data = xs, rd_end = e\<rparr>, w_pools w) \<and>
     dispatch tx now f' w = (Return None, w') \<and> log_of (w_conn w') = log_of (w_conn w) @ [(reply, length reply)] \<and>
     Stop (NewClient nc \<lparr>rd_data = reply @ ys, rd_end = e\<rparr>) ps = (None, c, ps') \<and>
     nc_log (cl_conn c) = nc_log nc @ [(bye, length bye)] \<and> cl_reader c = \<lparr>rd_data = ys, rd_end = e\<rparr> \<and>
     frame_out ps' = frame_out ps"
proof -
  let ?items = "agent_bye_items statusCodeNormal (gostr ''connection closed by server'')"
  note r = filled_frame [OF items_encodable(4) disjI1, of TypeAgentDisconnect 0 statusCodeNormal "gostr ''connection closed by server''"]
  obtain r' where enc: "Frame_Encode buffer_write (fill_frame TypeAgentDisconnect 0 ?items blank_frame) [] =
      ((length agent_bye, None), r', agent_bye)" using r(6) by (auto simp: agent_bye_def)
  have "length agent_bye - 4 \<le> unat MaxFrameSize" using wire_lengths(5) by (simp add: MaxFrameSize_val)
  from call_answered [OF assms(1,2) _ items_encodable(2) wire_lengths(3) [unfolded client_bye_def] disjI1 r(1) call_sized(5) enc this
      r(2), of False ys e]
  obtain c ps' where "Stop (NewClient nc \<lparr>rd_data = agent_bye @ ys, rd_end = e\<rparr>) ps = (None, c, ps')"
    "nc_log (cl_conn c) = nc_log nc @ [(client_bye, length client_bye)]" "cl_reader c = \<lparr>rd_data = ys, rd_end = e\<rparr>"
    "frame_out ps' = frame_out ps" by (auto simp: calls_exchange client_bye_def)
  with worker_bye [OF assms(3,4) _ assms(5,7,8,6), of xs e tx now] show ?thesis by blast
qed

lemma session_notify:
  assumes "frame_pool_ok ps" and "takes 100 nc" and "request_pool_ok (w_pools w)" and "conn_ok (w_conn w)"
    and "frame_clean f" and "w_ready w" "256 \<le> unat (frameLimit w)" "unat (frameLimit w) \<le> unat MaxFrameSize"
  shows "\<exists>bytes f'.
     Frame_ReadLimit f \<lparr>rd_data = bytes @ xs, rd_end = e\<rparr> (frameLimit w) (Some FromHAProxy) (w_pools w) =
       (None, f', \<lparr>rd_data = xs, rd_end = e\<rparr>, w_pools w) \<and> dispatch tx now f' w = (NeedSlot, w) \<and>
     (\<forall>req ack w'. notify_ack now f' req w = (None, ack, w') \<and> length (fst (last (log_of (w_conn w')))) < 2 ^ 32 \<and>
        list_all (\<lambda>a. unat (act_Scope a) \<le> 4 \<and> go_sized (act_Name a) \<and> td_sized (act_Value a)) (r_Actions req) \<longrightarrow>
        (\<exists>reply c ps'. log_of (w_conn w') = log_of (w_conn w) @ [(reply, length reply)] \<and>
           Notify (NewClient nc \<lparr>rd_data = reply @ ys, rd_end = e\<rparr>) ps = (None, c, ps') \<and>
           nc_log (cl_conn c) = nc_log nc @ [(bytes, length bytes)] \<and> cl_reader c = \<lparr>rd_data = ys, rd_end = e\<rparr> \<and>
           frame_out ps' = frame_out ps))"
proof -
  obtain f' where f': "Frame_ReadLimit f \<lparr>rd_data = client_notify @ xs, rd_end = e\<rparr> (frameLimit w) (Some FromHAProxy) (w_pools w) =
      (None, f', \<lparr>rd_data = xs, rd_end = e\<rparr>, w_pools w)" "dispatch tx now f' w = (NeedSlot, w)"
    using worker_notify [OF assms(6,7,5), of xs e tx now] by blast
  have "\<exists>reply c ps'. log_of (w_conn w') = log_of (w_conn w) @ [(reply, length reply)] \<and>
      Notify (NewClient nc \<lparr>rd_data = reply @ ys, rd_end = e\<rparr>) ps = (None, c, ps') \<and>
      nc_log (cl_conn c) = nc_log nc @ [(client_notify, length client_notify)] \<and> cl_reader c = \<lparr>rd_data = ys, rd_end = e\<rparr> \<and>
      frame_out ps' = frame_out ps"
    if a: "notify_ack now f' req w = (None, ack, w')" and l: "length (fst (last (log_of (w_conn w')))) < 2 ^ 32"
      and s: "list_all (\<lambda>a. unat (act_Scope a) \<le> 4 \<and> go_sized (act_Name a) \<and> td_sized (act_Value a)) (r_Actions req)" for req ack w'
  proof (rule ack_written [OF assms(3,4) a s assms(8)])
    fix r m r' reply
    assume r: "frame_ok r" "payload_ok r" "Frame_Encode buffer_write r [] = ((m, None), r', reply)" "f_Type r = TypeAgentAck"
      and log: "log_of (w_conn w') = log_of (w_conn w) @ [(reply, length reply)]"
      and fits: "length reply < 2 ^ 32 \<longrightarrow> m - 4 \<le> unat MaxFrameSize"
    have "m - 4 \<le> unat MaxFrameSize" using l log fits by simp
    from call_answered [OF assms(1,2) _ _ wire_lengths(2) [unfolded client_notify_def] disjI2 r(1-3) this r(4), of False ys e] log
    show ?thesis by (auto simp: calls_exchange client_notify_def)
  qed
  with f' show ?thesis by blast
qed

text \<open>A worker and a client as they are when they meet.\<close>

definition sample_worker :: worker where
  "sample_worker = Handle (NewConn (fresh_net (\<lambda>_. (1000, None))))
     \<lparr>cfg_Timeouts = \<lparr>tm_Handshake = 0, tm_Idle = 0, tm_Write = 0\<rparr>, cfg_Done = None, cfg_MaxInFlight = 0\<rparr> used_pools"

lemma sample_worker_fresh:
  "request_pool_ok (w_pools sample_worker)" "takes 100 (t_conn (w_conn sample_worker))" "\<not> t_closed (w_conn sample_worker)"
  "conn_ok (w_conn sample_worker)" "\<not> w_ready sample_worker" "w_maxFrameSize sample_worker = 0"
  by (auto simp: sample_worker_def Handle_def used_pools_def takes_def NewConn_def fresh_net_def conn_ok_def
      intro!: ReleaseRequest_ok) (simp add: request_pool_ok_def frame_pool_ok_def msg_pool_ok_def kv_pool_ok_def)

end
