(* ===== verification/Spec2Isabelle.thy ===== *)
theory Spec2Isabelle
  imports Agent_Properties Session
begin

text \<open>
  \<^bold>\<open>The program.\<close> \<open>src/\<close> is an agent for HAProxy's stream processing offload protocol (SPOP 2.0), in
  Go. \<open>agent\<close> accepts connections and starts a \<open>worker\<close> on each; a worker negotiates the HELLO
  handshake, reads frames in one goroutine, runs a handler goroutine for each NOTIFY and writes the
  ACK through \<open>transport\<close>, which serialises the writes of a connection. \<open>frame\<close> is the wire format; its
  payloads are lists of named values (\<open>payload/kv\<close>), messages (\<open>message\<close>) and actions (\<open>action\<close>), built
  on \<open>typeddata\<close> and \<open>varint\<close>. Frames, messages, value lists and requests are pooled objects. \<open>client\<close>
  is the peer the project tests its agent with.

  \<^bold>\<open>The theories\<close>, each with the source it models; a definition keeps its source name where HOL
  has no constant of that name, and a method carries its receiver (\<open>Frame_Encode\<close>, \<open>KV_Unmarshal\<close>).

  \<^item> \<open>Prelude\<close>: bytes, strings and words; the interfaces of the decoders (\<open>item_reader\<close>, \<open>item_codec\<close>,
    \<open>list_reader\<close>, \<open>list_codec\<close>, \<open>counted_reader\<close>, \<open>counted_codec\<close>) and of the pools (\<open>reset_pool\<close>).
  \<^item> \<open>Varint\<close> (\<open>varint/varint.go\<close>), \<open>TypedData\<close> (\<open>typeddata/typeddata.go\<close>), \<open>KV\<close>
    (\<open>payload/kv/kv.go\<close>), \<open>Message\<close> (\<open>message/*.go\<close>), \<open>Action\<close> (\<open>action/*.go\<close>): the codecs, each an
    interpretation of the decoder interfaces, and the pools of \<open>KV\<close> and \<open>Message\<close>.
  \<^item> \<open>GoIO\<close>, \<open>GoStrings\<close>: what the sources use of Go's \<open>io\<close>, \<open>bytes\<close>, \<open>encoding/binary\<close>, \<open>strings\<close>
    and \<open>strconv\<close>.
  \<^item> \<open>Frame\<close>, \<open>Frame_Codec\<close>, \<open>Frame_Properties\<close> (\<open>frame/frame.go\<close>, \<open>frame/encode.go\<close>, \<open>frame/read.go\<close>): the
    frame object and its pool, \<open>Encode\<close> and \<open>ReadLimit\<close>, and their properties.
  \<^item> \<open>Request\<close> (\<open>request/request.go\<close>): the request a handler sees and its pool.
  \<^item> \<open>Transport\<close> (\<open>transport/conn.go\<close>): one connection over a socket whose every answer is arbitrary.
  \<^item> \<open>Handshake\<close> (\<open>worker/handshake.go\<close>): the negotiation.
  \<^item> \<open>Worker\<close> (\<open>worker/worker.go\<close>, \<open>frame_agenthello.go\<close>, \<open>frame_disconnect.go\<close>, \<open>frame_notify.go\<close>): the
    operations of a worker on its state. \<open>Worker_System\<close>: the read loop and the handlers as goroutines.
    \<open>Worker_Steps\<close>, \<open>Worker_Invariants\<close>, \<open>Worker_Properties\<close>: case rules, invariants and properties.
  \<^item> \<open>Step_Systems\<close>: event-driven systems, their runs and reachable states; the interfaces
    \<open>event_invariant\<close>, \<open>draining_phase\<close> and \<open>slot_gate\<close>, which worker and agent both interpret.
  \<^item> \<open>Agent\<close> (\<open>agent/agent.go\<close>): the options, \<open>New\<close>, the accept loop's parts, the roster and the slots.
    \<open>Agent_System\<close>: any number of \<open>Serve\<close> and \<open>Shutdown\<close> calls and of connections, each connection
    a system of \<open>Worker_System\<close>. \<open>Agent_Invariants\<close>, \<open>Agent_Drain\<close>, \<open>Agent_Properties\<close>.
  \<^item> \<open>Client\<close> (\<open>client/client.go\<close>) and \<open>Session\<close>: the client's calls, and each of them against a worker.

  \<^bold>\<open>State and effects.\<close> A struct is a record, an operation a function from the old state to its result
  and the new state, an error a value. A pool is the list of the objects in it, a source of
  choices for which one \<open>Get\<close> returns, and a count of the objects taken out, so that a leak or a
  double release shows. A socket is a log of the bytes written and a function that decides what each write
  reports. A goroutine is a position in the code together with what it holds there. A step ends where another
  goroutine can come in between with an effect: at a lock, an atomic, a channel operation, a change of
  a WaitGroup, a call of the handler, an access to the socket; the operations on the pools belong to the
  step they stand in. The theorems quantify over all interleavings of the steps, all behaviours of the
  peer and the socket, and all handlers. The pools are shared by the whole process:
  an event may replace them, at any time, by any others that are well formed (\<open>pools_keep\<close>).

  \<^bold>\<open>What is shown.\<close>
  \<^item> Codecs: what is encoded decodes to what was encoded; decoders succeed exactly on the wire grammar,
    report the error of the first malformed item and keep what came before it, consume exactly what
    they report and never read past their input; lookups find what was decoded (C1 to C16).
  \<^item> Frames: one \<open>Write\<close> per frame, the round trip and exactly when the reader refuses what \<open>Encode\<close>
    accepts, the size and type gates before the body is read, the balance of the pools (C17 to C22).
  \<^item> Transport and handshake: a frame is written whole or an error is reported, a
    connection is closed once, the first failing check of a HELLO decides the refusal (C23 to C26).
  \<^item> One connection: no ACK and no AGENT-HELLO follows an AGENT-DISCONNECT, ACKs answer NOTIFYs and stay
    within the frame size, the in-flight limit, the wake-up of a draining read loop, that a
    connection which begins to end does end, and the balance of its pools (C27 to C33).
  \<^item> The agent: its connections are workers in states a worker reaches by itself, the roster and
    the slots, a drain reaches every listener and connection, what a return of \<open>Shutdown\<close> promises,
    that \<open>Serve\<close> returns once a drain has begun, and the pace of its accept retries (C34 to C39).
  \<^item> The client and the worker understand each other (C40).

  \<^bold>\<open>Bounds.\<close> Integers are words of their Go width; \<open>int\<close> has 64 bits. No definition takes fuel: the
  loops of the decoders recurse on the bytes left. The ending of a connection and the return of \<open>Serve\<close> are
  bounded by the weights \<open>steps_left\<close> and \<open>serve_left\<close>, which every step of the goroutine in question
  lowers; that some step is enabled is part of the statement.

  \<^bold>\<open>Not modelled.\<close>
  \<^item> \<open>logger\<close>: it only takes lines away, and no code reads them back. A call of \<open>Errorf\<close> is taken to return;
    with a \<open>Channel\<close> whose reader has stopped it may block its caller, as its documentation warns.
  \<^item> The text that \<open>fmt\<close> renders from error values and \<open>strconv.Quote\<close>: parameters (\<open>go_texts\<close>,
    \<open>quote\<close>), about which nothing is assumed.
  \<^item> The bodies of handlers: a handler is arbitrary in what it makes of its request and in whether and
    when it returns, but it does not use the messages it borrowed after it has returned. A handler
    that panics ends the process, as nothing recovers it, and no run goes past that point.
  \<^item> A \<open>Close\<close> that overtakes a write which is blocked in the socket: it is a write that fails, then the close.
  \<^item> Time is a number that grows; a context is the flag that it is cancelled.
\<close>

section \<open>A client's session with the agent\<close>

text \<open>C40. Client and worker understand each other. Take a client and a worker whose sockets take a
  small frame, whatever is in their pools. Before the handshake, the worker reads the bytes that
  Init writes as a HAPROXY-HELLO, becomes ready with the client's frame size and answers with
  bytes on which Init returns nil. Once ready, it reads what Notify writes and asks for a
  slot, and whenever the handler's ACK is reported as written (by a handler that added well-formed
  actions, below 4 GiB) Notify returns nil on it; it answers what Stop writes with an AGENT-DISCONNECT
  on which Stop returns nil. Each call writes one frame, leaves the bytes behind the answer
  unread and gives back every frame it took from the pool.\<close>

theorem client_session:
  assumes "frame_pool_ok ps" and "takes 100 nc" and "request_pool_ok (w_pools w)" and "takes 100 (t_conn (w_conn w))"
    and "\<not> t_closed (w_conn w)" and "conn_ok (w_conn w)" and "frame_clean f"
  shows "(\<not> w_ready w \<and> w_maxFrameSize w = 0 \<longrightarrow>
      (\<exists>hello reply f' w' c ps'.
         Frame_ReadLimit f \<lparr>rd_data = hello @ xs, rd_end = e\<rparr> (frameLimit w) (Some FromHAProxy) (w_pools w) =
           (None, f', \<lparr>rd_data = xs, rd_end = e\<rparr>, w_pools w) \<and>
         dispatch tx now f' w = (Next, w') \<and> w_ready w' \<and> w_maxFrameSize w' = 16384 \<and>
         log_of (w_conn w') = log_of (w_conn w) @ [(reply, length reply)] \<and>
         Init (NewClient nc \<lparr>rd_data = reply @ ys, rd_end = e\<rparr>) ps = (None, c, ps') \<and>
         nc_log (cl_conn c) = nc_log nc @ [(hello, length hello)] \<and> cl_reader c = \<lparr>rd_data = ys, rd_end = e\<rparr> \<and>
         frame_out ps' = frame_out ps)) \<and>
    (w_ready w \<and> 256 \<le> unat (frameLimit w) \<and> unat (frameLimit w) \<le> unat MaxFrameSize \<longrightarrow>
      (\<exists>bytes f'.
         Frame_ReadLimit f \<lparr>rd_data = bytes @ xs, rd_end = e\<rparr> (frameLimit w) (Some FromHAProxy) (w_pools w) =
           (None, f', \<lparr>rd_data = xs, rd_end = e\<rparr>, w_pools w) \<and> dispatch tx now f' w = (NeedSlot, w) \<and>
         (\<forall>req ack w'. notify_ack now f' req w = (None, ack, w') \<and> length (fst (last (log_of (w_conn w')))) < 2 ^ 32 \<and>
            list_all (\<lambda>a. unat (act_Scope a) \<le> 4 \<and> go_sized (act_Name a) \<and> td_sized (act_Value a)) (r_Actions req) \<longrightarrow>
            (\<exists>reply c ps'. log_of (w_conn w') = log_of (w_conn w) @ [(reply, length reply)] \<and>
               Notify (NewClient nc \<lparr>rd_data = reply @ ys, rd_end = e\<rparr>) ps = (None, c, ps') \<and>
               nc_log (cl_conn c) = nc_log nc @ [(bytes, length bytes)] \<and> cl_reader c = \<lparr>rd_data = ys, rd_end = e\<rparr> \<and>
               frame_out ps' = frame_out ps)))) \<and>
    (w_ready w \<and> 256 \<le> unat (frameLimit w) \<longrightarrow>
      (\<exists>bye reply f' w' c ps'.
         Frame_ReadLimit f \<lparr>rd_data = bye @ xs, rd_end = e\<rparr> (frameLimit w) (Some FromHAProxy) (w_pools w) =
           (None, f', \<lparr>rd_data = xs, rd_end = e\<rparr>, w_pools w) \<and>
         dispatch tx now f' w = (Return None, w') \<and> log_of (w_conn w') = log_of (w_conn w) @ [(reply, length reply)] \<and>
         Stop (NewClient nc \<lparr>rd_data = reply @ ys, rd_end = e\<rparr>) ps = (None, c, ps') \<and>
         nc_log (cl_conn c) = nc_log nc @ [(bye, length bye)] \<and> cl_reader c = \<lparr>rd_data = ys, rd_end = e\<rparr> \<and>
         frame_out ps' = frame_out ps))"
  by (intro conjI impI; elim conjE)
     (rule session_init [OF assms(1-5,7)] session_notify [OF assms(1-3,6,7)] session_stop [OF assms(1-5,7)]; assumption)+

theorem client_session_witness:
  "\<exists>reply c ps'. Init (NewClient (fresh_net (\<lambda>_. (1000, None))) \<lparr>rd_data = reply, rd_end = EOF\<rparr>) empty_frame_pools = (None, c, ps') \<and>
     cl_reader c = \<lparr>rd_data = [], rd_end = EOF\<rparr>"
proof -
  have "frame_pool_ok empty_frame_pools"
    by (simp add: empty_frame_pools_def frame_pool_ok_def msg_pool_ok_def kv_pool_ok_def)
  moreover have "takes 100 (fresh_net (\<lambda>_. (1000, None)))" by (simp add: takes_def fresh_net_def)
  ultimately show ?thesis
    using client_session [OF _ _ sample_worker_fresh(1-4) sample_frame_ok(3), of empty_frame_pools "fresh_net (\<lambda>_. (1000, None))" "[]" EOF _ 0 "[]"]
      sample_worker_fresh(5,6) by fastforce
qed

end
